theory Spec2Isabelle
  imports Main "HOL-Library.Multiset" "HOL-Library.Log_Nat"
begin

section \<open>Password generation options\<close>

text \<open>
  The object \<open>o\<close> that \<open>generatePassword\<close> works on, with every property present:
  the shape of the module constant \<open>DefaultOptions\<close>. Numbers are integers
  (JavaScript numbers with an integer value), toggles are booleans.
  The property \<open>length\<close> is named \<open>length_o\<close> here, since \<open>length\<close> is the list length.
\<close>

record GenerationOptions =
  length_o :: int
  ambiguous :: bool
  number :: bool
  minNumber :: int
  uppercase :: bool
  minUppercase :: int
  lowercase :: bool
  minLowercase :: int
  special :: bool
  minSpecial :: int

text \<open>
  The caller's \<open>options\<close> argument: any subset of the properties
  (\<open>None\<close> is an absent property).
\<close>

record Options =
  opt_length :: "int option"
  opt_ambiguous :: "bool option"
  opt_number :: "bool option"
  opt_minNumber :: "int option"
  opt_uppercase :: "bool option"
  opt_minUppercase :: "int option"
  opt_lowercase :: "bool option"
  opt_minLowercase :: "int option"
  opt_special :: "bool option"
  opt_minSpecial :: "int option"

definition DefaultOptions :: GenerationOptions where
  "DefaultOptions =
     \<lparr>length_o = 14, ambiguous = False, number = True, minNumber = 1,
      uppercase = True, minUppercase = 1, lowercase = True, minLowercase = 1,
      special = False, minSpecial = 1\<rparr>"

definition noOptions :: Options where
  "noOptions =
     \<lparr>opt_length = None, opt_ambiguous = None, opt_number = None, opt_minNumber = None,
      opt_uppercase = None, opt_minUppercase = None, opt_lowercase = None,
      opt_minLowercase = None, opt_special = None, opt_minSpecial = None\<rparr>"

text \<open>\<open>Object.assign({}, d, p)\<close>: the properties of \<open>d\<close>, overridden by those \<open>p\<close> has.\<close>

definition assign :: "GenerationOptions \<Rightarrow> Options \<Rightarrow> GenerationOptions" where
  "assign d p =
     \<lparr>length_o = (case opt_length p of Some v \<Rightarrow> v | None \<Rightarrow> length_o d),
      ambiguous = (case opt_ambiguous p of Some v \<Rightarrow> v | None \<Rightarrow> ambiguous d),
      number = (case opt_number p of Some v \<Rightarrow> v | None \<Rightarrow> number d),
      minNumber = (case opt_minNumber p of Some v \<Rightarrow> v | None \<Rightarrow> minNumber d),
      uppercase = (case opt_uppercase p of Some v \<Rightarrow> v | None \<Rightarrow> uppercase d),
      minUppercase = (case opt_minUppercase p of Some v \<Rightarrow> v | None \<Rightarrow> minUppercase d),
      lowercase = (case opt_lowercase p of Some v \<Rightarrow> v | None \<Rightarrow> lowercase d),
      minLowercase = (case opt_minLowercase p of Some v \<Rightarrow> v | None \<Rightarrow> minLowercase d),
      special = (case opt_special p of Some v \<Rightarrow> v | None \<Rightarrow> special d),
      minSpecial = (case opt_minSpecial p of Some v \<Rightarrow> v | None \<Rightarrow> minSpecial d)\<rparr>"

section \<open>Normalisation of the options\<close>

text \<open>The four \<open>sanitize\<close> statements, one per class, in the order of the source.\<close>

definition sanitizeUppercase :: "GenerationOptions \<Rightarrow> GenerationOptions" where
  "sanitizeUppercase opts =
     (if uppercase opts \<and> minUppercase opts < 0 then opts\<lparr>minUppercase := 1\<rparr> else opts)"

definition sanitizeLowercase :: "GenerationOptions \<Rightarrow> GenerationOptions" where
  "sanitizeLowercase opts =
     (if lowercase opts \<and> minLowercase opts < 0 then opts\<lparr>minLowercase := 1\<rparr> else opts)"

definition sanitizeNumber :: "GenerationOptions \<Rightarrow> GenerationOptions" where
  "sanitizeNumber opts =
     (if number opts \<and> minNumber opts < 0 then opts\<lparr>minNumber := 1\<rparr> else opts)"

definition sanitizeSpecial :: "GenerationOptions \<Rightarrow> GenerationOptions" where
  "sanitizeSpecial opts =
     (if special opts \<and> minSpecial opts < 0 then opts\<lparr>minSpecial := 1\<rparr> else opts)"

text \<open>\<open>if (!o.length || o.length < 1) o.length = 10\<close>; on an integer, \<open>!n\<close> is \<open>n = 0\<close>.\<close>

definition defaultLength :: "GenerationOptions \<Rightarrow> GenerationOptions" where
  "defaultLength opts =
     (if length_o opts = 0 \<or> length_o opts < 1 then opts\<lparr>length_o := 10\<rparr> else opts)"

text \<open>
  JavaScript adds numbers as IEEE 754 doubles: the result is the exact sum rounded
  to the nearest double, a tie going to the even significand. Every integer of at
  most 53 bits is a double; a larger one keeps its 53 leading bits. (A sum of
  magnitude \<open>2^1024\<close> or more would be \<open>Infinity\<close>; values that large are outside
  the integers modelled here.)
\<close>

definition roundToDouble :: "int \<Rightarrow> int" where
  "roundToDouble x =
     (let m = \<bar>x\<bar>; n = bitlen m in
      if n \<le> 53 then x
      else
        (let q = 2 ^ nat (n - 53); k = m div q; r = m mod q;
             k' = (if 2 * r > q \<or> (2 * r = q \<and> odd k) then k + 1 else k)
         in sgn x * (k' * q)))"

definition jsAdd :: "int \<Rightarrow> int \<Rightarrow> int" where
  "jsAdd a b = roundToDouble (a + b)"

text \<open>
  \<open>o.minUppercase + o.minLowercase + o.minNumber + o.minSpecial\<close>, added from left
  to right.
\<close>

definition minLength :: "GenerationOptions \<Rightarrow> int" where
  "minLength opts =
     jsAdd (jsAdd (jsAdd (minUppercase opts) (minLowercase opts)) (minNumber opts))
       (minSpecial opts)"

definition raiseLength :: "GenerationOptions \<Rightarrow> GenerationOptions" where
  "raiseLength opts =
     (if length_o opts < minLength opts then opts\<lparr>length_o := minLength opts\<rparr> else opts)"

definition sanitize :: "GenerationOptions \<Rightarrow> GenerationOptions" where
  "sanitize opts = sanitizeSpecial (sanitizeNumber (sanitizeLowercase (sanitizeUppercase opts)))"

definition normalizeOptions :: "GenerationOptions \<Rightarrow> GenerationOptions" where
  "normalizeOptions opts = raiseLength (defaultLength (sanitize opts))"

section \<open>The position plan and the character sets\<close>

text \<open>
  \<open>positions\<close> is an array of the one-character tags \<open>l u n s a\<close>, a \<open>string\<close> here.
  \<open>for (let i = 0; i < n; i++) positions.push(c)\<close> appends \<open>n\<close> copies of \<open>c\<close>
  (none when \<open>n \<le> 0\<close>). The closing loop
  \<open>while (positions.length < o.length) positions.push('a')\<close> appends
  \<open>o.length - positions.length\<close> copies of \<open>a\<close>, none when the array is already
  that long.
\<close>

definition pushTimes :: "string \<Rightarrow> char \<Rightarrow> int \<Rightarrow> string" where
  "pushTimes positions c n = positions @ replicate (nat n) c"

definition buildPositions :: "GenerationOptions \<Rightarrow> string" where
  "buildPositions opts =
     (let p0 = [];
          p1 = (if lowercase opts \<and> minLowercase opts > 0
                then pushTimes p0 (CHR ''l'') (minLowercase opts) else p0);
          p2 = (if uppercase opts \<and> minUppercase opts > 0
                then pushTimes p1 (CHR ''u'') (minUppercase opts) else p1);
          p3 = (if number opts \<and> minNumber opts > 0
                then pushTimes p2 (CHR ''n'') (minNumber opts) else p2);
          p4 = (if special opts \<and> minSpecial opts > 0
                then pushTimes p3 (CHR ''s'') (minSpecial opts) else p3)
      in pushTimes p4 (CHR ''a'') (length_o opts - int (length p4)))"

definition lowercaseCharSet :: "GenerationOptions \<Rightarrow> string" where
  "lowercaseCharSet opts =
     ''abcdefghijkmnopqrstuvwxyz'' @ (if ambiguous opts then ''l'' else [])"

definition uppercaseCharSet :: "GenerationOptions \<Rightarrow> string" where
  "uppercaseCharSet opts =
     ''ABCDEFGHIJKLMNPQRSTUVWXYZ'' @ (if ambiguous opts then ''O'' else [])"

definition numberCharSet :: "GenerationOptions \<Rightarrow> string" where
  "numberCharSet opts = ''23456789'' @ (if ambiguous opts then ''01'' else [])"

definition specialCharSet :: string where
  "specialCharSet = ''!@#$%^&*''"

definition allCharSet :: "GenerationOptions \<Rightarrow> string" where
  "allCharSet opts =
     (if lowercase opts then lowercaseCharSet opts else []) @
     (if uppercase opts then uppercaseCharSet opts else []) @
     (if number opts then numberCharSet opts else []) @
     (if special opts then specialCharSet else [])"

text \<open>
  The \<open>switch\<close> on a tag. A tag outside the five cases leaves \<open>positionChars\<close>
  undefined (\<open>None\<close>), and reading its \<open>length\<close> then throws.
\<close>

definition positionChars :: "GenerationOptions \<Rightarrow> char \<Rightarrow> string option" where
  "positionChars opts tag =
     (if tag = CHR ''l'' then Some (lowercaseCharSet opts)
      else if tag = CHR ''u'' then Some (uppercaseCharSet opts)
      else if tag = CHR ''n'' then Some (numberCharSet opts)
      else if tag = CHR ''s'' then Some specialCharSet
      else if tag = CHR ''a'' then Some (allCharSet opts)
      else None)"

text \<open>\<open>String.prototype.charAt\<close>: the empty string at an index out of range.\<close>

definition charAt :: "string \<Rightarrow> int \<Rightarrow> string" where
  "charAt s i = (if 0 \<le> i \<and> i < int (length s) then [s ! nat i] else [])"

section \<open>generatePassword\<close>

datatype error = TypeError | EncryptError | DecryptError

text \<open>
  The two sources of randomness are parameters of the model.

  \<open>secureRandomNumber k lo hi\<close> is the answer of the call
  \<open>UtilsService.secureRandomNumber(lo, hi)\<close> made for character \<open>k\<close> of the
  password; the function is defined in \<open>utils.service\<close>, which is not part of the
  files verified here, so any answer is allowed. \<open>shuffle\<close> is what
  \<open>positions.sort\<close> leaves in the array when its comparator answers \<open>-1\<close> or
  \<open>1\<close> at random; the order is the engine's choice (the comparator's own draws
  are part of that choice).

  The character loop \<open>for (let i = 0; i < o.length; i++)\<close> is \<open>appendChars\<close>, with
  \<open>i\<close> the index and \<open>n\<close> the number of rounds left. When \<open>positions[i]\<close> is
  undefined or matches no case of the \<open>switch\<close>, \<open>positionChars.length\<close> throws.
\<close>

fun appendChars ::
  "(nat \<Rightarrow> int \<Rightarrow> int \<Rightarrow> int) \<Rightarrow> GenerationOptions \<Rightarrow> string \<Rightarrow> nat \<Rightarrow> nat \<Rightarrow> string
     \<Rightarrow> error + string" where
  "appendChars secureRandomNumber opts positions i 0 password = Inr password"
| "appendChars secureRandomNumber opts positions i (Suc n) password =
     (if i < length positions then
        (case positionChars opts (positions ! i) of
           None \<Rightarrow> Inl TypeError
         | Some chars \<Rightarrow>
             (let randomCharIndex = secureRandomNumber i 0 (int (length chars) - 1)
              in appendChars secureRandomNumber opts positions (Suc i) n
                   (password @ charAt chars randomCharIndex)))
      else Inl TypeError)"

definition generatePassword ::
  "(string \<Rightarrow> string) \<Rightarrow> (nat \<Rightarrow> int \<Rightarrow> int \<Rightarrow> int) \<Rightarrow> Options \<Rightarrow> error + string" where
  "generatePassword shuffle secureRandomNumber options =
     (let opts = normalizeOptions (assign DefaultOptions options);
          positions = shuffle (buildPositions opts)
      in appendChars secureRandomNumber opts positions 0 (nat (length_o opts)) [])"

text \<open>
  Modelled from the spec: what is required of the two parameters. The shuffle yields
  a permutation of the plan, and a draw is an integer of the requested range, both
  bounds included (nothing is required of a draw from an empty range).
\<close>

definition permutes :: "(string \<Rightarrow> string) \<Rightarrow> bool" where
  "permutes shuffle = (\<forall>xs. mset (shuffle xs) = mset xs)"

definition inRange :: "(nat \<Rightarrow> int \<Rightarrow> int \<Rightarrow> int) \<Rightarrow> bool" where
  "inRange secureRandomNumber =
     (\<forall>k lo hi. lo \<le> hi \<longrightarrow> lo \<le> secureRandomNumber k lo hi \<and> secureRandomNumber k lo hi \<le> hi)"


text \<open>
  The characters one round of the loop appends, and how many characters of a string
  lie in a character set.
\<close>

definition drawChar ::
  "(nat \<Rightarrow> int \<Rightarrow> int \<Rightarrow> int) \<Rightarrow> GenerationOptions \<Rightarrow> string \<Rightarrow> nat \<Rightarrow> string" where
  "drawChar secureRandomNumber opts positions k =
     (case positionChars opts (positions ! k) of
        None \<Rightarrow> []
      | Some chars \<Rightarrow> charAt chars (secureRandomNumber k 0 (int (length chars) - 1)))"

definition countIn :: "string \<Rightarrow> string \<Rightarrow> nat" where
  "countIn chars s = length (filter (\<lambda>c. c \<in> set chars) s)"

text \<open>The number of tags one class contributes to the plan, and of all class tags.\<close>

definition planned :: "bool \<Rightarrow> int \<Rightarrow> nat" where
  "planned enabled m = (if enabled \<and> m > 0 then nat m else 0)"

definition plannedTotal :: "GenerationOptions \<Rightarrow> nat" where
  "plannedTotal opts =
     planned (lowercase opts) (minLowercase opts) + planned (uppercase opts) (minUppercase opts) +
     planned (number opts) (minNumber opts) + planned (special opts) (minSpecial opts)"

text \<open>
  In the words of the specification, not of the source: the sum of the minimums of
  the enabled (active) classes, and the normalised length. A minimum that is
  negative while its class is on counts as 1; a length below 1 counts as 10; the
  length is raised to the sum of the active minimums when that sum exceeds it.
\<close>

definition activeMinimums :: "GenerationOptions \<Rightarrow> int" where
  "activeMinimums opts =
     (if uppercase opts then minUppercase opts else 0) +
     (if lowercase opts then minLowercase opts else 0) +
     (if number opts then minNumber opts else 0) +
     (if special opts then minSpecial opts else 0)"

definition normalizedMinimum :: "bool \<Rightarrow> int \<Rightarrow> int" where
  "normalizedMinimum enabled m = (if enabled then (if m < 0 then 1 else m) else 0)"

definition normalizedLength :: "GenerationOptions \<Rightarrow> int" where
  "normalizedLength g =
     (let len = (if length_o g < 1 then 10 else length_o g);
          active = normalizedMinimum (uppercase g) (minUppercase g) +
                   normalizedMinimum (lowercase g) (minLowercase g) +
                   normalizedMinimum (number g) (minNumber g) +
                   normalizedMinimum (special g) (minSpecial g)
      in if len < active then active else len)"

section \<open>generatePassword on a store of objects\<close>

text \<open>
  To speak of what \<open>generatePassword\<close> writes, objects live in a store: a list of
  objects, an address being an index. An object is either complete (as
  \<open>DefaultOptions\<close> and \<open>o\<close> are) or a caller's object with any subset of the
  properties. \<open>Object.assign({}, DefaultOptions, options)\<close> allocates a new object
  at the end of the store; every later assignment \<open>o.p = v\<close> is an update of the
  store at the address of \<open>o\<close>. A call whose addresses do not hold a complete
  defaults object and an options object is outside the model (\<open>TypeError\<close>, store
  untouched).
\<close>

datatype obj = Full GenerationOptions | Given Options

fun fieldsOf :: "obj \<Rightarrow> Options" where
  "fieldsOf (Given p) = p"
| "fieldsOf (Full g) =
     \<lparr>opt_length = Some (length_o g), opt_ambiguous = Some (ambiguous g),
      opt_number = Some (number g), opt_minNumber = Some (minNumber g),
      opt_uppercase = Some (uppercase g), opt_minUppercase = Some (minUppercase g),
      opt_lowercase = Some (lowercase g), opt_minLowercase = Some (minLowercase g),
      opt_special = Some (special g), opt_minSpecial = Some (minSpecial g)\<rparr>"

definition assignAt ::
  "nat \<Rightarrow> (GenerationOptions \<Rightarrow> GenerationOptions) \<Rightarrow> obj list \<Rightarrow> obj list" where
  "assignAt a f h =
     (if a < length h then (case h ! a of Full g \<Rightarrow> h[a := Full (f g)] | Given p \<Rightarrow> h) else h)"

definition generatePasswordStore ::
  "(string \<Rightarrow> string) \<Rightarrow> (nat \<Rightarrow> int \<Rightarrow> int \<Rightarrow> int) \<Rightarrow> obj list \<Rightarrow> nat \<Rightarrow> nat
     \<Rightarrow> (error + string) \<times> obj list" where
  "generatePasswordStore shuffle secureRandomNumber h defaults options =
     (if defaults < length h \<and> options < length h then
        (case h ! defaults of
           Given p \<Rightarrow> (Inl TypeError, h)
         | Full d \<Rightarrow>
             (let a = length h;
                  h1 = h @ [Full (assign d (fieldsOf (h ! options)))];
                  h2 = assignAt a sanitizeUppercase h1;
                  h3 = assignAt a sanitizeLowercase h2;
                  h4 = assignAt a sanitizeNumber h3;
                  h5 = assignAt a sanitizeSpecial h4;
                  h6 = assignAt a defaultLength h5;
                  h7 = assignAt a raiseLength h6
              in (case h7 ! a of
                    Given p \<Rightarrow> (Inl TypeError, h7)
                  | Full opts \<Rightarrow>
                      (appendChars secureRandomNumber opts (shuffle (buildPositions opts)) 0
                         (nat (length_o opts)) [], h7))))
      else (Inl TypeError, h))"

section \<open>The history store\<close>

record PasswordHistory =
  password :: string
  date :: int

text \<open>
  Modelled from the spec: the class \<open>CipherString\<close> is outside the sources at hand;
  the specification calls it an opaque ciphertext token. It is built from its string
  form, which \<open>encryptedString\<close> gives back.
\<close>

datatype CipherString = CipherString (encryptedString: string)

text \<open>
  The encryption capability is a parameter: \<open>encrypt\<close> and \<open>decrypt\<close> may fail
  (a rejected promise is \<open>Inl\<close>).
\<close>

record CryptoService =
  encrypt :: "string \<Rightarrow> error + CipherString"
  decrypt :: "CipherString \<Rightarrow> error + string"

datatype call =
  GetKey | StorageGet string | StorageSave string | StorageRemove string
  | Encrypt string | Decrypt CipherString

text \<open>
  The state of one service instance and of its two collaborators. \<open>history\<close> is the
  field \<open>this.history\<close>: a reference to an array object, or \<open>None\<close> for
  \<open>null\<close>/\<open>undefined\<close>. Arrays live in \<open>arrays\<close>, addressed by number, since
  \<open>getHistory\<close> hands out the very array the field holds and \<open>addHistory\<close> changes
  it in place; \<open>fresh\<close> is the next unused address. \<open>key\<close> is what
  \<open>cryptoService.getKey()\<close> answers, \<open>storage\<close> is the key-value store, and
  \<open>calls\<close> records the calls made to the collaborators, oldest first.
\<close>

record ServiceState =
  history :: "nat option"
  arrays :: "nat \<Rightarrow> PasswordHistory list"
  fresh :: nat
  key :: "string option"
  storage :: "string \<rightharpoonup> PasswordHistory list"
  calls :: "call list"

definition Keys_history :: string where
  "Keys_history = ''generatedPasswordHistory''"

definition MaxPasswordsInHistory :: nat where
  "MaxPasswordsInHistory = 100"

definition newArray :: "PasswordHistory list \<Rightarrow> ServiceState \<Rightarrow> nat \<times> ServiceState" where
  "newArray xs s = (fresh s, s\<lparr>arrays := (arrays s)(fresh s := xs), fresh := Suc (fresh s)\<rparr>)"

definition push :: "nat \<Rightarrow> PasswordHistory \<Rightarrow> ServiceState \<Rightarrow> ServiceState" where
  "push a x s = s\<lparr>arrays := (arrays s)(a := arrays s a @ [x])\<rparr>"

definition shift :: "nat \<Rightarrow> ServiceState \<Rightarrow> ServiceState" where
  "shift a s = s\<lparr>arrays := (arrays s)(a := tl (arrays s a))\<rparr>"

definition getKey :: "ServiceState \<Rightarrow> string option \<times> ServiceState" where
  "getKey s = (key s, s\<lparr>calls := calls s @ [GetKey]\<rparr>)"

definition storageGet :: "string \<Rightarrow> ServiceState \<Rightarrow> PasswordHistory list option \<times> ServiceState" where
  "storageGet k s = (storage s k, s\<lparr>calls := calls s @ [StorageGet k]\<rparr>)"

definition storageSave :: "string \<Rightarrow> PasswordHistory list \<Rightarrow> ServiceState \<Rightarrow> ServiceState" where
  "storageSave k v s = s\<lparr>storage := (storage s)(k \<mapsto> v), calls := calls s @ [StorageSave k]\<rparr>"

definition storageRemove :: "string \<Rightarrow> ServiceState \<Rightarrow> ServiceState" where
  "storageRemove k s = s\<lparr>storage := (storage s)(k := None), calls := calls s @ [StorageRemove k]\<rparr>"

text \<open>
  The field initialiser \<open>private history: PasswordHistory[] = []\<close> and the
  constructor: a new instance holds a new empty array.
\<close>

definition newService :: "string option \<Rightarrow> (string \<rightharpoonup> PasswordHistory list) \<Rightarrow> ServiceState" where
  "newService k st =
     (let s0 = \<lparr>history = None, arrays = (\<lambda>a. []), fresh = 0, key = k, storage = st, calls = []\<rparr>;
          (a, s1) = newArray [] s0
      in s1\<lparr>history := Some a\<rparr>)"

text \<open>
  \<open>Promise.all(history.map(async item => ...))\<close>: every item in index order; the
  result is the list of the results, or the first failure.
\<close>

fun encryptItems ::
  "(string \<Rightarrow> error + CipherString) \<Rightarrow> PasswordHistory list \<Rightarrow> error + PasswordHistory list" where
  "encryptItems enc [] = Inr []"
| "encryptItems enc (item # rest) =
     (case enc (password item) of
        Inl e \<Rightarrow> Inl e
      | Inr encrypted \<Rightarrow>
          (case encryptItems enc rest of
             Inl e \<Rightarrow> Inl e
           | Inr r \<Rightarrow> Inr (\<lparr>password = encryptedString encrypted, date = date item\<rparr> # r)))"

fun decryptItems ::
  "(CipherString \<Rightarrow> error + string) \<Rightarrow> PasswordHistory list \<Rightarrow> error + PasswordHistory list" where
  "decryptItems dec [] = Inr []"
| "decryptItems dec (item # rest) =
     (case dec (CipherString (password item)) of
        Inl e \<Rightarrow> Inl e
      | Inr decrypted \<Rightarrow>
          (case decryptItems dec rest of
             Inl e \<Rightarrow> Inl e
           | Inr r \<Rightarrow> Inr (\<lparr>password = decrypted, date = date item\<rparr> # r)))"

text \<open>The argument is the array's content, or \<open>None\<close> for \<open>null\<close>.\<close>

definition encryptHistory ::
  "CryptoService \<Rightarrow> PasswordHistory list option \<Rightarrow> ServiceState
     \<Rightarrow> (error + PasswordHistory list) \<times> ServiceState" where
  "encryptHistory crypto h s =
     (case h of
        None \<Rightarrow> (Inr [], s)
      | Some xs \<Rightarrow>
          if length xs = 0 then (Inr [], s)
          else (encryptItems (encrypt crypto) xs,
                s\<lparr>calls := calls s @ map (\<lambda>item. Encrypt (password item)) xs\<rparr>))"

definition decryptHistory ::
  "CryptoService \<Rightarrow> PasswordHistory list option \<Rightarrow> ServiceState
     \<Rightarrow> (error + PasswordHistory list) \<times> ServiceState" where
  "decryptHistory crypto h s =
     (case h of
        None \<Rightarrow> (Inr [], s)
      | Some xs \<Rightarrow>
          if length xs = 0 then (Inr [], s)
          else (decryptItems (decrypt crypto) xs,
                s\<lparr>calls := calls s @ map (\<lambda>item. Decrypt (CipherString (password item))) xs\<rparr>))"

definition matchesPrevious :: "string \<Rightarrow> PasswordHistory list option \<Rightarrow> bool" where
  "matchesPrevious pw h =
     (case h of
        None \<Rightarrow> False
      | Some xs \<Rightarrow> if length xs = 0 then False else password (xs ! (length xs - 1)) = pw)"

text \<open>
  The body of \<open>if (!this.history) { ... }\<close> in \<open>getHistory\<close>: read the persisted
  list, decrypt it, and keep the new array in the field.
\<close>

definition loadHistory :: "CryptoService \<Rightarrow> ServiceState \<Rightarrow> (error + unit) \<times> ServiceState" where
  "loadHistory crypto s =
     (let (encrypted, s1) = storageGet Keys_history s;
          (r, s2) = decryptHistory crypto encrypted s1
      in case r of
           Inl e \<Rightarrow> (Inl e, s2)
         | Inr xs \<Rightarrow> (let (a, s3) = newArray xs s2 in (Inr (), s3\<lparr>history := Some a\<rparr>)))"

text \<open>
  \<open>getHistory\<close> returns a reference to an array. An array reference is truthy, so
  \<open>!this.history\<close> holds exactly when the field is \<open>None\<close>.
\<close>

definition getHistory :: "CryptoService \<Rightarrow> ServiceState \<Rightarrow> (error + nat) \<times> ServiceState" where
  "getHistory crypto s =
     (let (k, s1) = getKey s in
      if k = None then (let (a, s2) = newArray [] s1 in (Inr a, s2))
      else
        (let (r, s2) = (if history s1 = None then loadHistory crypto s1 else (Inr (), s1)) in
         case r of
           Inl e \<Rightarrow> (Inl e, s2)
         | Inr u \<Rightarrow>
             (case history s2 of
                Some a \<Rightarrow> (Inr a, s2)
              | None \<Rightarrow> (let (a, s3) = newArray [] s2 in (Inr a, s3)))))"

text \<open>\<open>now\<close> is the value of \<open>Date.now()\<close> at the call.\<close>

definition addHistory ::
  "CryptoService \<Rightarrow> int \<Rightarrow> string \<Rightarrow> ServiceState \<Rightarrow> (error + unit) \<times> ServiceState" where
  "addHistory crypto now pw s =
     (let (k, s1) = getKey s in
      if k = None then (Inr (), s1)
      else
        (let (r, s2) = getHistory crypto s1 in
         case r of
           Inl e \<Rightarrow> (Inl e, s2)
         | Inr currentHistory \<Rightarrow>
             if matchesPrevious pw (Some (arrays s2 currentHistory)) then (Inr (), s2)
             else
               (let s3 = push currentHistory \<lparr>password = pw, date = now\<rparr> s2;
                    s4 = (if length (arrays s3 currentHistory) > MaxPasswordsInHistory
                          then shift currentHistory s3 else s3);
                    (r2, s5) = encryptHistory crypto (Some (arrays s4 currentHistory)) s4
                in case r2 of
                     Inl e \<Rightarrow> (Inl e, s5)
                   | Inr newHistory \<Rightarrow> (Inr (), storageSave Keys_history newHistory s5))))"

definition clear :: "ServiceState \<Rightarrow> ServiceState" where
  "clear s = (let (a, s1) = newArray [] s in storageRemove Keys_history (s1\<lparr>history := Some a\<rparr>))"

text \<open>The list the field \<open>this.history\<close> holds (empty when the field is unset).\<close>

definition cached :: "ServiceState \<Rightarrow> PasswordHistory list" where
  "cached s = (case history s of None \<Rightarrow> [] | Some a \<Rightarrow> arrays s a)"

text \<open>
  What can happen to an instance: its three history operations, and the key of the
  encryption service being set or cleared from outside (unlock, lock). \<open>run\<close>
  performs a sequence of them, failures included.
\<close>

datatype event = AddHistory int string | GetHistory | Clear | SetKey "string option"

fun step :: "CryptoService \<Rightarrow> event \<Rightarrow> ServiceState \<Rightarrow> ServiceState" where
  "step crypto (AddHistory now pw) s = snd (addHistory crypto now pw s)"
| "step crypto GetHistory s = snd (getHistory crypto s)"
| "step crypto Clear s = clear s"
| "step crypto (SetKey k) s = s\<lparr>key := k\<rparr>"

fun run :: "CryptoService \<Rightarrow> event list \<Rightarrow> ServiceState \<Rightarrow> ServiceState" where
  "run crypto [] s = s"
| "run crypto (e # es) s = run crypto es (step crypto e s)"

text \<open>\<open>decrypt\<close> inverts \<open>encrypt\<close>: a working encryption service.\<close>

definition inverts :: "CryptoService \<Rightarrow> bool" where
  "inverts crypto = (\<forall>p. \<exists>c. encrypt crypto p = Inr c \<and> decrypt crypto c = Inr p)"


text \<open>
  What \<open>push\<close> followed by the conditional \<open>shift\<close> leaves of a list, and the
  states in which the field holds an allocated array of at most
  \<open>MaxPasswordsInHistory\<close> entries.
\<close>

definition trim :: "PasswordHistory list \<Rightarrow> PasswordHistory list" where
  "trim xs = (if length xs > MaxPasswordsInHistory then tl xs else xs)"

definition wellFormed :: "ServiceState \<Rightarrow> bool" where
  "wellFormed s =
     (case history s of
        None \<Rightarrow> False
      | Some a \<Rightarrow> a < fresh s \<and> length (arrays s a) \<le> MaxPasswordsInHistory)"

text \<open>The calls that load the persisted history: a storage read or a decryption.\<close>

fun isLoad :: "call \<Rightarrow> bool" where
  "isLoad (StorageGet k) = True"
| "isLoad (Decrypt x) = True"
| "isLoad c = False"

section \<open>Concrete inputs\<close>

text \<open>
  An encryption service that reverses strings, a store that holds one persisted
  entry, an instance whose array is full, a random source that always answers the
  lower bound, and some option objects.
\<close>

definition demoCrypto :: CryptoService where
  "demoCrypto =
     \<lparr>encrypt = (\<lambda>p. Inr (CipherString (rev p))),
      decrypt = (\<lambda>c. Inr (rev (encryptedString c)))\<rparr>"

definition persisted :: "string \<rightharpoonup> PasswordHistory list" where
  "persisted = [Keys_history \<mapsto> [\<lparr>password = ''2retnuh'', date = 1\<rparr>]]"

definition fullService :: ServiceState where
  "fullService =
     (newService (Some ''key'') Map.empty)
       \<lparr>arrays := (\<lambda>a. replicate 100 \<lparr>password = ''old'', date = 0\<rparr>)\<rparr>"

definition lowest :: "nat \<Rightarrow> int \<Rightarrow> int \<Rightarrow> int" where
  "lowest k lo hi = lo"

definition allOff :: Options where
  "allOff =
     noOptions\<lparr>opt_lowercase := Some False, opt_uppercase := Some False,
               opt_number := Some False\<rparr>"

definition lengthThree :: Options where
  "lengthThree = noOptions\<lparr>opt_length := Some 3\<rparr>"

definition negativeDisabled :: Options where
  "negativeDisabled =
     noOptions\<lparr>opt_number := Some False, opt_minNumber := Some (- 2), opt_length := Some 1\<rparr>"

definition largeMinimums :: GenerationOptions where
  "largeMinimums =
     \<lparr>length_o = 5, ambiguous = False, number = False, minNumber = - 9007199254740991,
      uppercase = False, minUppercase = 9007199254740991, lowercase = True, minLowercase = 2,
      special = True, minSpecial = 11\<rparr>"

definition allFives :: Options where
  "allFives =
     noOptions\<lparr>opt_minUppercase := Some 5, opt_minLowercase := Some 5, opt_minNumber := Some 5,
               opt_minSpecial := Some 5, opt_length := Some 10, opt_uppercase := Some True,
               opt_lowercase := Some True, opt_number := Some True, opt_special := Some True\<rparr>"

section \<open>Properties of the normalisation\<close>

lemma sanitize_fields [simp]:
  "length_o (sanitize g) = length_o g" "ambiguous (sanitize g) = ambiguous g"
  "lowercase (sanitize g) = lowercase g" "uppercase (sanitize g) = uppercase g"
  "number (sanitize g) = number g" "special (sanitize g) = special g"
  by (simp_all add: sanitize_def sanitizeUppercase_def sanitizeLowercase_def sanitizeNumber_def sanitizeSpecial_def)

lemma sanitize_mins:
  "minLowercase (sanitize g) = (if lowercase g \<and> minLowercase g < 0 then 1 else minLowercase g)"
  "minUppercase (sanitize g) = (if uppercase g \<and> minUppercase g < 0 then 1 else minUppercase g)"
  "minNumber (sanitize g) = (if number g \<and> minNumber g < 0 then 1 else minNumber g)"
  "minSpecial (sanitize g) = (if special g \<and> minSpecial g < 0 then 1 else minSpecial g)"
  by (simp_all add: sanitize_def sanitizeUppercase_def sanitizeLowercase_def sanitizeNumber_def sanitizeSpecial_def)

lemma defaultLength_fields [simp]:
  "ambiguous (defaultLength g) = ambiguous g"
  "lowercase (defaultLength g) = lowercase g" "uppercase (defaultLength g) = uppercase g"
  "number (defaultLength g) = number g" "special (defaultLength g) = special g"
  "minLowercase (defaultLength g) = minLowercase g" "minUppercase (defaultLength g) = minUppercase g"
  "minNumber (defaultLength g) = minNumber g" "minSpecial (defaultLength g) = minSpecial g"
  "minLength (defaultLength g) = minLength g"
  by (simp_all add: defaultLength_def minLength_def)

lemma raiseLength_fields [simp]:
  "ambiguous (raiseLength g) = ambiguous g"
  "lowercase (raiseLength g) = lowercase g" "uppercase (raiseLength g) = uppercase g"
  "number (raiseLength g) = number g" "special (raiseLength g) = special g"
  "minLowercase (raiseLength g) = minLowercase g" "minUppercase (raiseLength g) = minUppercase g"
  "minNumber (raiseLength g) = minNumber g" "minSpecial (raiseLength g) = minSpecial g"
  by (simp_all add: raiseLength_def)

lemma defaultLength_length: "length_o (defaultLength g) = (if length_o g < 1 then 10 else length_o g)"
  by (simp add: defaultLength_def)

lemma raiseLength_length: "length_o (raiseLength g) = max (length_o g) (minLength g)"
  by (simp add: raiseLength_def max_def)

lemma normalize_length_pos: "1 \<le> length_o (normalizeOptions g)"
  by (simp add: normalizeOptions_def raiseLength_length defaultLength_length max_def)

text \<open>
  The length after normalisation: the given length (10 when it is below 1), raised to
  the sum of all four minimums when that sum is larger. The sum runs over the four
  fields whether or not their classes are enabled.
\<close>

lemma normalizeOptions_length:
  "length_o (normalizeOptions g) =
     max (if length_o g < 1 then 10 else length_o g) (minLength (sanitize g))"
  by (simp add: normalizeOptions_def raiseLength_length defaultLength_length)

text \<open>
  A sum of fewer than 54 bits is exact; beyond that the addition rounds, as
  \<open>9007199254740991 + 2\<close> does.
\<close>

lemma roundToDouble_exact: "\<bar>x\<bar> < 2 ^ 53 \<Longrightarrow> roundToDouble x = x"
proof -
  assume "\<bar>x\<bar> < 2 ^ 53"
  then have "bitlen \<bar>x\<bar> \<le> 53"
    by (simp add: bitlen_le_iff_power)
  then show ?thesis
    by (simp add: roundToDouble_def Let_def)
qed

lemma jsAdd_exact: "\<bar>a + b\<bar> < 2 ^ 53 \<Longrightarrow> jsAdd a b = a + b"
  by (simp add: jsAdd_def roundToDouble_exact)

lemma minLength_exact:
  assumes "\<bar>minUppercase g + minLowercase g\<bar> < 2 ^ 53"
    and "\<bar>minUppercase g + minLowercase g + minNumber g\<bar> < 2 ^ 53"
    and "\<bar>minUppercase g + minLowercase g + minNumber g + minSpecial g\<bar> < 2 ^ 53"
  shows "minLength g = minUppercase g + minLowercase g + minNumber g + minSpecial g"
  using assms by (simp add: minLength_def jsAdd_exact)

lemma minLength_rounds:
  "minLength largeMinimums = 12 \<and>
   minUppercase largeMinimums + minLowercase largeMinimums + minNumber largeMinimums +
     minSpecial largeMinimums = 13"
  by code_simp

lemma allFives_length: "length_o (normalizeOptions (assign DefaultOptions allFives)) = 20"
  by code_simp

text \<open>
  Claim C2: after the defaults are applied, the length is raised exactly when the sum
  of the minimums of the enabled classes exceeds it, and then to that sum; minimums
  of disabled classes do not count. The code sums all four minimums: for
  \<open>{length: 3}\<close> the defaults leave \<open>special\<close> disabled with \<open>minSpecial = 1\<close>,
  the minimums of the three enabled classes sum to 3, which does not exceed the
  length 3, and yet the length becomes 4.
\<close>

theorem minLength_counts_disabled_classes:
  "length_o (defaultLength (sanitize (assign DefaultOptions lengthThree))) = 3 \<and>
   \<not> special (defaultLength (sanitize (assign DefaultOptions lengthThree))) \<and>
   activeMinimums (defaultLength (sanitize (assign DefaultOptions lengthThree))) = 3 \<and>
   minLength (defaultLength (sanitize (assign DefaultOptions lengthThree))) = 4 \<and>
   length_o (normalizeOptions (assign DefaultOptions lengthThree)) = 4"
  by code_simp

section \<open>Properties of the generated password\<close>

lemma buildPositions_eq:
  "buildPositions opts =
     replicate (planned (lowercase opts) (minLowercase opts)) (CHR ''l'') @
     replicate (planned (uppercase opts) (minUppercase opts)) (CHR ''u'') @
     replicate (planned (number opts) (minNumber opts)) (CHR ''n'') @
     replicate (planned (special opts) (minSpecial opts)) (CHR ''s'') @
     replicate (nat (length_o opts) - plannedTotal opts) (CHR ''a'')"
proof -
  have fill: "nat (length_o opts - int k) = nat (length_o opts) - k" for k
    by arith
  show ?thesis
    unfolding buildPositions_def pushTimes_def Let_def plannedTotal_def fill [symmetric]
    by (simp add: planned_def)
qed

lemma length_buildPositions:
  "length (buildPositions opts) = max (nat (length_o opts)) (plannedTotal opts)"
  by (simp add: buildPositions_eq plannedTotal_def)

lemma count_buildPositions:
  "count (mset (buildPositions opts)) (CHR ''l'') = planned (lowercase opts) (minLowercase opts)"
  "count (mset (buildPositions opts)) (CHR ''u'') = planned (uppercase opts) (minUppercase opts)"
  "count (mset (buildPositions opts)) (CHR ''n'') = planned (number opts) (minNumber opts)"
  "count (mset (buildPositions opts)) (CHR ''s'') = planned (special opts) (minSpecial opts)"
  by (simp_all add: buildPositions_eq)

lemma set_buildPositions:
  "set (buildPositions opts) \<subseteq> {CHR ''l'', CHR ''u'', CHR ''n'', CHR ''s'', CHR ''a''}"
  by (auto simp: buildPositions_eq split: if_splits)

lemma appendChars_closed:
  "i + n \<le> length positions \<Longrightarrow> \<forall>t\<in>set positions. positionChars opts t \<noteq> None \<Longrightarrow>
   appendChars rnd opts positions i n pw =
     Inr (pw @ concat (map (drawChar rnd opts positions) [i..<i + n]))"
proof (induction n arbitrary: i pw)
  case 0
  then show ?case by simp
next
  case (Suc n)
  from Suc.prems have i: "i < length positions" by simp
  with Suc.prems obtain cs where cs: "positionChars opts (positions ! i) = Some cs"
    by (metis nth_mem not_None_eq)
  have step: "[i..<Suc (i + n)] = i # [Suc i..<Suc (i + n)]"
    by (simp add: upt_conv_Cons)
  from Suc.prems have "Suc i + n \<le> length positions" by simp
  from Suc.IH [OF this Suc.prems(2)] show ?case
    using i cs by (simp add: step drawChar_def Let_def del: upt_Suc)
qed


lemma normalize_fields [simp]:
  "ambiguous (normalizeOptions g) = ambiguous g"
  "lowercase (normalizeOptions g) = lowercase g" "uppercase (normalizeOptions g) = uppercase g"
  "number (normalizeOptions g) = number g" "special (normalizeOptions g) = special g"
  by (simp_all add: normalizeOptions_def)

lemma normalize_mins:
  "minLowercase (normalizeOptions g) = (if lowercase g \<and> minLowercase g < 0 then 1 else minLowercase g)"
  "minUppercase (normalizeOptions g) = (if uppercase g \<and> minUppercase g < 0 then 1 else minUppercase g)"
  "minNumber (normalizeOptions g) = (if number g \<and> minNumber g < 0 then 1 else minNumber g)"
  "minSpecial (normalizeOptions g) = (if special g \<and> minSpecial g < 0 then 1 else minSpecial g)"
  by (simp_all add: normalizeOptions_def sanitize_mins)

lemma charsets_normalize [simp]:
  "lowercaseCharSet (normalizeOptions g) = lowercaseCharSet g"
  "uppercaseCharSet (normalizeOptions g) = uppercaseCharSet g"
  "numberCharSet (normalizeOptions g) = numberCharSet g"
  by (simp_all add: lowercaseCharSet_def uppercaseCharSet_def numberCharSet_def)

lemma plannedTotal_active:
  "int (plannedTotal (normalizeOptions g)) = activeMinimums (normalizeOptions g)"
  by (simp add: plannedTotal_def planned_def activeMinimums_def normalize_mins)

lemma nth_int_mem: "0 \<le> i \<Longrightarrow> i < int (length cs) \<Longrightarrow> cs ! nat i \<in> set cs"
  by (simp add: nat_less_iff)

lemma charAt_subset: "set (charAt cs i) \<subseteq> set cs"
  by (auto simp: charAt_def nth_int_mem)

lemma charAt_inRange:
  "inRange rnd \<Longrightarrow> cs \<noteq> [] \<Longrightarrow>
   \<exists>c \<in> set cs. charAt cs (rnd k 0 (int (length cs) - 1)) = [c]"
proof -
  assume r: "inRange rnd" and ne: "cs \<noteq> []"
  from ne have "(0::int) \<le> int (length cs) - 1" by (cases cs) simp_all
  with r have "0 \<le> rnd k 0 (int (length cs) - 1) \<and> rnd k 0 (int (length cs) - 1) \<le> int (length cs) - 1"
    unfolding inRange_def by blast
  then show ?thesis by (simp add: charAt_def nth_int_mem)
qed

lemma positionChars_nonempty:
  assumes "lowercase opts \<or> uppercase opts \<or> number opts \<or> special opts"
    and "positionChars opts t = Some cs"
  shows "cs \<noteq> []"
  using assms
  by (auto simp: positionChars_def lowercaseCharSet_def uppercaseCharSet_def numberCharSet_def
      specialCharSet_def allCharSet_def split: if_splits)

lemma positionChars_class_nonempty:
  "lowercaseCharSet opts \<noteq> []" "uppercaseCharSet opts \<noteq> []" "numberCharSet opts \<noteq> []"
  "specialCharSet \<noteq> []"
  by (simp_all add: lowercaseCharSet_def uppercaseCharSet_def numberCharSet_def specialCharSet_def)

lemma positionChars_tags:
  "t \<in> {CHR ''l'', CHR ''u'', CHR ''n'', CHR ''s'', CHR ''a''} \<Longrightarrow> positionChars opts t \<noteq> None"
  by (auto simp: positionChars_def)

lemma shuffled_plan:
  assumes "permutes shuffle"
  shows "length (shuffle (buildPositions opts)) = max (nat (length_o opts)) (plannedTotal opts)"
    and "\<forall>t\<in>set (shuffle (buildPositions opts)). positionChars opts t \<noteq> None"
proof -
  from assms have m: "mset (shuffle (buildPositions opts)) = mset (buildPositions opts)"
    by (simp add: permutes_def)
  from m have "length (shuffle (buildPositions opts)) = length (buildPositions opts)"
    by (rule mset_eq_length)
  then show "length (shuffle (buildPositions opts)) = max (nat (length_o opts)) (plannedTotal opts)"
    by (simp add: length_buildPositions)
  from m have "set (shuffle (buildPositions opts)) = set (buildPositions opts)"
    by (rule mset_eq_setD)
  with set_buildPositions [of opts] positionChars_tags [of _ opts]
  show "\<forall>t\<in>set (shuffle (buildPositions opts)). positionChars opts t \<noteq> None"
    by blast
qed

lemma generatePassword_closed:
  assumes "permutes shuffle"
  shows "generatePassword shuffle rnd options =
    (let opts = normalizeOptions (assign DefaultOptions options);
         positions = shuffle (buildPositions opts)
     in Inr (concat (map (drawChar rnd opts positions) [0..<nat (length_o opts)])))"
proof -
  let ?opts = "normalizeOptions (assign DefaultOptions options)"
  let ?Q = "shuffle (buildPositions ?opts)"
  have "0 + nat (length_o ?opts) \<le> length ?Q"
    by (simp add: shuffled_plan(1) [OF assms])
  from appendChars_closed [OF this shuffled_plan(2) [OF assms], of rnd "[]"]
  show ?thesis by (simp add: generatePassword_def Let_def)
qed

lemma drawChar_length:
  assumes "inRange rnd" "lowercase opts \<or> uppercase opts \<or> number opts \<or> special opts"
    and "positionChars opts (positions ! k) \<noteq> None"
  shows "length (drawChar rnd opts positions k) = 1"
proof -
  from assms(3) obtain cs where cs: "positionChars opts (positions ! k) = Some cs" by blast
  with assms(2) have "cs \<noteq> []" by (rule positionChars_nonempty)
  from charAt_inRange [OF assms(1) this, of k] cs show ?thesis
    by (auto simp: drawChar_def)
qed

lemma length_concat_ones:
  "\<forall>k\<in>set ks. length (f k) = 1 \<Longrightarrow> length (concat (map f ks)) = length ks"
  by (induction ks) simp_all

lemma permutes_rev: "permutes rev"
  by (simp add: permutes_def)

lemma inRange_lowest: "inRange lowest"
  by (simp add: inRange_def lowest_def)

text \<open>
  When at least one character class is enabled, every draw is an index into a
  non-empty set and appends exactly one character: the password has as many
  characters as the length the code arrives at.
\<close>

lemma generatePassword_code_length:
  assumes "permutes shuffle" and "inRange rnd"
    and "lowercase (assign DefaultOptions options) \<or> uppercase (assign DefaultOptions options) \<or>
         number (assign DefaultOptions options) \<or> special (assign DefaultOptions options)"
  shows "\<exists>s. generatePassword shuffle rnd options = Inr s \<and>
             int (length s) = length_o (normalizeOptions (assign DefaultOptions options))"
proof -
  let ?opts = "normalizeOptions (assign DefaultOptions options)"
  let ?Q = "shuffle (buildPositions ?opts)"
  let ?n = "nat (length_o ?opts)"
  have en: "lowercase ?opts \<or> uppercase ?opts \<or> number ?opts \<or> special ?opts"
    using assms(3) by simp
  have len: "?n \<le> length ?Q"
    by (simp add: shuffled_plan(1) [OF assms(1)])
  have "\<forall>k\<in>set [0..<?n]. length (drawChar rnd ?opts ?Q k) = 1"
  proof
    fix k assume "k \<in> set [0..<?n]"
    with len have "k < length ?Q" by simp
    then have "?Q ! k \<in> set ?Q" by simp
    with shuffled_plan(2) [OF assms(1), of ?opts]
    have "positionChars ?opts (?Q ! k) \<noteq> None" by blast
    with assms(2) en show "length (drawChar rnd ?opts ?Q k) = 1"
      by (rule drawChar_length)
  qed
  then have "length (concat (map (drawChar rnd ?opts ?Q) [0..<?n])) = ?n"
    by (simp add: length_concat_ones)
  moreover have "0 \<le> length_o ?opts"
    using normalize_length_pos [of "assign DefaultOptions options"] by simp
  ultimately show ?thesis
    by (simp add: generatePassword_closed [OF assms(1)] Let_def)
qed

text \<open>
  The length the code arrives at is the normalised length of the specification
  exactly when the sum of line 55 is the sum of the active minimums, or neither sum
  exceeds the length.
\<close>

lemma activeMinimums_sanitized:
  "activeMinimums (defaultLength (sanitize g)) =
     normalizedMinimum (uppercase g) (minUppercase g) +
     normalizedMinimum (lowercase g) (minLowercase g) +
     normalizedMinimum (number g) (minNumber g) +
     normalizedMinimum (special g) (minSpecial g)"
  by (simp add: activeMinimums_def sanitize_mins normalizedMinimum_def)

lemma normalizedLength_max:
  "normalizedLength g =
     max (length_o (defaultLength (sanitize g))) (activeMinimums (defaultLength (sanitize g)))"
  unfolding activeMinimums_sanitized
  by (simp add: normalizedLength_def Let_def defaultLength_length max_def)

lemma code_length_max:
  "length_o (normalizeOptions g) =
     max (length_o (defaultLength (sanitize g))) (minLength (defaultLength (sanitize g)))"
  by (simp add: normalizeOptions_def raiseLength_length)

lemma lengths_agree_iff:
  "length_o (normalizeOptions g) = normalizedLength g \<longleftrightarrow>
     minLength (defaultLength (sanitize g)) = activeMinimums (defaultLength (sanitize g)) \<or>
     (minLength (defaultLength (sanitize g)) \<le> length_o (defaultLength (sanitize g)) \<and>
      activeMinimums (defaultLength (sanitize g)) \<le> length_o (defaultLength (sanitize g)))"
  unfolding code_length_max normalizedLength_max
  by (auto simp: max_def)

text \<open>
  Claim C3: the returned string has the normalised length of the options (defaults
  merged, a length below 1 replaced by 10, the length raised to the sum of the
  active minimums), whatever the random source does. This holds when at least one
  character class is enabled and the sum of all four minimums, as line 55 computes
  it, is the sum of the active minimums or, like that sum, does not exceed the
  length. Nothing is said of the other option sets with an enabled class: there the
  minimums of disabled classes decide the length.
\<close>

theorem generatePassword_length:
  assumes "permutes shuffle" and "inRange rnd"
    and "lowercase (assign DefaultOptions options) \<or> uppercase (assign DefaultOptions options) \<or>
         number (assign DefaultOptions options) \<or> special (assign DefaultOptions options)"
    and "minLength (defaultLength (sanitize (assign DefaultOptions options)))
           = activeMinimums (defaultLength (sanitize (assign DefaultOptions options))) \<or>
         (minLength (defaultLength (sanitize (assign DefaultOptions options)))
            \<le> length_o (defaultLength (sanitize (assign DefaultOptions options))) \<and>
          activeMinimums (defaultLength (sanitize (assign DefaultOptions options)))
            \<le> length_o (defaultLength (sanitize (assign DefaultOptions options))))"
  shows "\<exists>s. generatePassword shuffle rnd options = Inr s \<and>
             int (length s) = normalizedLength (assign DefaultOptions options)"
proof -
  have "length_o (normalizeOptions (assign DefaultOptions options))
          = normalizedLength (assign DefaultOptions options)"
    using assms(4) by (simp only: lengths_agree_iff)
  with generatePassword_code_length [OF assms(1-3)] show ?thesis
    by simp
qed

theorem generatePassword_length_witness:
  "permutes rev \<and> inRange lowest \<and>
   normalizedLength (assign DefaultOptions allFives) = 20 \<and>
   (\<exists>s. generatePassword rev lowest allFives = Inr s \<and> int (length s) = 20)"
proof -
  have en: "lowercase (assign DefaultOptions allFives) \<or> uppercase (assign DefaultOptions allFives) \<or>
            number (assign DefaultOptions allFives) \<or> special (assign DefaultOptions allFives)"
    by code_simp
  have agree: "minLength (defaultLength (sanitize (assign DefaultOptions allFives)))
           = activeMinimums (defaultLength (sanitize (assign DefaultOptions allFives))) \<or>
         (minLength (defaultLength (sanitize (assign DefaultOptions allFives)))
            \<le> length_o (defaultLength (sanitize (assign DefaultOptions allFives))) \<and>
          activeMinimums (defaultLength (sanitize (assign DefaultOptions allFives)))
            \<le> length_o (defaultLength (sanitize (assign DefaultOptions allFives))))"
    by code_simp
  have n: "normalizedLength (assign DefaultOptions allFives) = 20"
    by code_simp
  from generatePassword_length [OF permutes_rev inRange_lowest en agree] n
  show ?thesis by (simp add: permutes_rev inRange_lowest)
qed

text \<open>
  With every class disabled the pool of the \<open>a\<close> tags is empty, \<open>charAt\<close> yields
  the empty string in every round, and the result is empty although the normalised
  length is 14.
\<close>

theorem generatePassword_length_counterexample:
  "generatePassword rev lowest allOff = Inr [] \<and>
   normalizedLength (assign DefaultOptions allOff) = 14"
  by code_simp

text \<open>The same for every shuffle and every random source, in or out of range.\<close>

lemma no_class_enabled:
  assumes "permutes shuffle"
    and "\<not> lowercase (assign DefaultOptions options)" and "\<not> uppercase (assign DefaultOptions options)"
    and "\<not> number (assign DefaultOptions options)" and "\<not> special (assign DefaultOptions options)"
  shows "generatePassword shuffle rnd options = Inr []"
proof -
  let ?opts = "normalizeOptions (assign DefaultOptions options)"
  let ?Q = "shuffle (buildPositions ?opts)"
  have "set (buildPositions ?opts) \<subseteq> {CHR ''a''}"
    using assms(2-5) by (auto simp: buildPositions_eq planned_def split: if_splits)
  moreover have "set ?Q = set (buildPositions ?opts)"
  proof (rule mset_eq_setD)
    show "mset ?Q = mset (buildPositions ?opts)"
      using assms(1) by (simp add: permutes_def)
  qed
  ultimately have tags: "\<forall>t\<in>set ?Q. t = CHR ''a''" by blast
  have "allCharSet ?opts = []"
    using assms(2-5) by (simp add: allCharSet_def)
  then have pool: "positionChars ?opts (CHR ''a'') = Some []"
    by (simp add: positionChars_def)
  have len: "length ?Q = nat (length_o ?opts)"
    using assms(2-5) by (simp add: shuffled_plan(1) [OF assms(1)] plannedTotal_def planned_def)
  have "\<forall>k\<in>set [0..<nat (length_o ?opts)]. drawChar rnd ?opts ?Q k = []"
  proof
    fix k assume "k \<in> set [0..<nat (length_o ?opts)]"
    with len have "?Q ! k \<in> set ?Q" by simp
    with tags have "?Q ! k = CHR ''a''" by blast
    with pool show "drawChar rnd ?opts ?Q k = []"
      by (simp add: drawChar_def charAt_def)
  qed
  then have "concat (map (drawChar rnd ?opts ?Q) [0..<nat (length_o ?opts)]) = []"
    by simp
  then show ?thesis
    by (simp add: generatePassword_closed [OF assms(1)] Let_def)
qed


lemma countIn_append [simp]: "countIn cs (a @ b) = countIn cs a + countIn cs b"
  by (simp add: countIn_def)

lemma count_draws:
  assumes "inRange rnd" and "positionChars opts t = Some cs" and "cs \<noteq> []"
  shows "n \<le> length Q \<Longrightarrow>
         count (mset (take n Q)) t \<le> countIn cs (concat (map (drawChar rnd opts Q) [0..<n]))"
proof (induction n)
  case 0
  then show ?case by simp
next
  case (Suc n)
  then have n: "n < length Q" and IH: "count (mset (take n Q)) t \<le> countIn cs (concat (map (drawChar rnd opts Q) [0..<n]))"
    by simp_all
  have "(if Q ! n = t then 1 else 0) \<le> countIn cs (drawChar rnd opts Q n)"
  proof (cases "Q ! n = t")
    case True
    from charAt_inRange [OF assms(1) assms(3), of n]
    obtain c where "c \<in> set cs" "charAt cs (rnd n 0 (int (length cs) - 1)) = [c]" by blast
    with True assms(2) show ?thesis by (simp add: drawChar_def countIn_def)
  next
    case False
    then show ?thesis by simp
  qed
  with IH n show ?case
    by (auto simp: take_Suc_conv_app_nth split: if_splits)
qed

lemma class_count:
  assumes "permutes shuffle" and "inRange rnd"
    and fit: "activeMinimums (normalizeOptions g) \<le> length_o (normalizeOptions g)"
    and t: "positionChars (normalizeOptions g) t = Some cs" and ne: "cs \<noteq> []"
  shows "count (mset (buildPositions (normalizeOptions g))) t \<le>
         countIn cs (concat (map (drawChar rnd (normalizeOptions g) (shuffle (buildPositions (normalizeOptions g))))
                       [0..<nat (length_o (normalizeOptions g))]))"
proof -
  let ?opts = "normalizeOptions g"
  let ?Q = "shuffle (buildPositions ?opts)"
  from fit have "plannedTotal ?opts \<le> nat (length_o ?opts)"
    using plannedTotal_active [of g] by linarith
  then have len: "length ?Q = nat (length_o ?opts)"
    by (simp add: shuffled_plan(1) [OF assms(1)])
  then have "nat (length_o ?opts) \<le> length ?Q" by simp
  from count_draws [OF assms(2) t ne this]
  have "count (mset (take (nat (length_o ?opts)) ?Q)) t \<le>
        countIn cs (concat (map (drawChar rnd ?opts ?Q) [0..<nat (length_o ?opts)]))" .
  moreover have "take (nat (length_o ?opts)) ?Q = ?Q" using len by simp
  moreover have "mset ?Q = mset (buildPositions ?opts)"
    using assms(1) by (simp add: permutes_def)
  ultimately show ?thesis by simp
qed

text \<open>
  When the length the code arrives at is at least the sum of the minimums of the
  enabled classes, the whole plan is used, and a class that is enabled with minimum
  \<open>k \<ge> 0\<close> has at least \<open>k\<close> of its characters in the password.
\<close>

lemma minimums_met_when_plan_fits:
  assumes "permutes shuffle" and "inRange rnd"
    and "activeMinimums (normalizeOptions (assign DefaultOptions options))
           \<le> length_o (normalizeOptions (assign DefaultOptions options))"
  shows "\<exists>s. generatePassword shuffle rnd options = Inr s \<and>
     (lowercase (assign DefaultOptions options) \<and> 0 \<le> minLowercase (assign DefaultOptions options) \<longrightarrow>
        minLowercase (assign DefaultOptions options)
          \<le> int (countIn (lowercaseCharSet (assign DefaultOptions options)) s)) \<and>
     (uppercase (assign DefaultOptions options) \<and> 0 \<le> minUppercase (assign DefaultOptions options) \<longrightarrow>
        minUppercase (assign DefaultOptions options)
          \<le> int (countIn (uppercaseCharSet (assign DefaultOptions options)) s)) \<and>
     (number (assign DefaultOptions options) \<and> 0 \<le> minNumber (assign DefaultOptions options) \<longrightarrow>
        minNumber (assign DefaultOptions options)
          \<le> int (countIn (numberCharSet (assign DefaultOptions options)) s)) \<and>
     (special (assign DefaultOptions options) \<and> 0 \<le> minSpecial (assign DefaultOptions options) \<longrightarrow>
        minSpecial (assign DefaultOptions options) \<le> int (countIn specialCharSet s))"
proof -
  let ?g = "assign DefaultOptions options"
  let ?opts = "normalizeOptions ?g"
  let ?s = "concat (map (drawChar rnd ?opts (shuffle (buildPositions ?opts))) [0..<nat (length_o ?opts)])"
  have s: "generatePassword shuffle rnd options = Inr ?s"
    by (simp add: generatePassword_closed [OF assms(1)] Let_def)
  have l: "count (mset (buildPositions ?opts)) (CHR ''l'') \<le> countIn (lowercaseCharSet ?g) ?s"
    using class_count [OF assms(1,2,3), of "CHR ''l''" "lowercaseCharSet ?g"]
    by (simp add: positionChars_def positionChars_class_nonempty)
  have u: "count (mset (buildPositions ?opts)) (CHR ''u'') \<le> countIn (uppercaseCharSet ?g) ?s"
    using class_count [OF assms(1,2,3), of "CHR ''u''" "uppercaseCharSet ?g"]
    by (simp add: positionChars_def positionChars_class_nonempty)
  have n: "count (mset (buildPositions ?opts)) (CHR ''n'') \<le> countIn (numberCharSet ?g) ?s"
    using class_count [OF assms(1,2,3), of "CHR ''n''" "numberCharSet ?g"]
    by (simp add: positionChars_def positionChars_class_nonempty)
  have sp: "count (mset (buildPositions ?opts)) (CHR ''s'') \<le> countIn specialCharSet ?s"
    using class_count [OF assms(1,2,3), of "CHR ''s''" specialCharSet]
    by (simp add: positionChars_def positionChars_class_nonempty)
  have "lowercase ?g \<and> 0 \<le> minLowercase ?g \<longrightarrow> minLowercase ?g \<le> int (countIn (lowercaseCharSet ?g) ?s)"
    using l by (auto simp: count_buildPositions planned_def normalize_mins split: if_splits)
  moreover have "uppercase ?g \<and> 0 \<le> minUppercase ?g \<longrightarrow> minUppercase ?g \<le> int (countIn (uppercaseCharSet ?g) ?s)"
    using u by (auto simp: count_buildPositions planned_def normalize_mins split: if_splits)
  moreover have "number ?g \<and> 0 \<le> minNumber ?g \<longrightarrow> minNumber ?g \<le> int (countIn (numberCharSet ?g) ?s)"
    using n by (auto simp: count_buildPositions planned_def normalize_mins split: if_splits)
  moreover have "special ?g \<and> 0 \<le> minSpecial ?g \<longrightarrow> minSpecial ?g \<le> int (countIn specialCharSet ?s)"
    using sp by (auto simp: count_buildPositions planned_def normalize_mins split: if_splits)
  ultimately show ?thesis using s by blast
qed

text \<open>
  The plan fits when the sum of line 55 is exact and no disabled class has a
  negative minimum.
\<close>

lemma nonnegative_minimums_fit:
  assumes "\<not> lowercase g \<Longrightarrow> 0 \<le> minLowercase g" and "\<not> uppercase g \<Longrightarrow> 0 \<le> minUppercase g"
    and "\<not> number g \<Longrightarrow> 0 \<le> minNumber g" and "\<not> special g \<Longrightarrow> 0 \<le> minSpecial g"
    and "minLength (sanitize g) =
           minUppercase (sanitize g) + minLowercase (sanitize g) + minNumber (sanitize g) +
           minSpecial (sanitize g)"
  shows "activeMinimums (normalizeOptions g) \<le> length_o (normalizeOptions g)"
proof -
  have "activeMinimums (normalizeOptions g) \<le> minLength (sanitize g)"
    unfolding assms(5) using assms(1-4)
    by (auto simp: activeMinimums_def normalize_mins sanitize_mins)
  then show ?thesis
    by (simp add: normalizeOptions_length)
qed

text \<open>
  Claim C4: a class that is enabled with minimum \<open>k \<ge> 0\<close> has at least \<open>k\<close> of
  its characters in the password. For \<open>{number: false, minNumber: -2, length: 1}\<close>
  the minimums of the enabled classes sum to 2, but line 55 adds the minimum of the
  disabled class too: \<open>1 + 1 - 2 + 1 = 1\<close>. The length stays 1, the plan is
  \<open>lu\<close>, and when the shuffle puts \<open>u\<close> first the password has no lowercase
  character, although \<open>lowercase\<close> is enabled with minimum 1.
\<close>

theorem generatePassword_drops_minimum:
  "generatePassword rev lowest negativeDisabled = Inr ''A'' \<and>
   lowercase (assign DefaultOptions negativeDisabled) \<and>
   minLowercase (assign DefaultOptions negativeDisabled) = 1 \<and>
   countIn (lowercaseCharSet (assign DefaultOptions negativeDisabled)) ''A'' = 0 \<and>
   activeMinimums (defaultLength (sanitize (assign DefaultOptions negativeDisabled))) = 2 \<and>
   minLength (defaultLength (sanitize (assign DefaultOptions negativeDisabled))) = 1 \<and>
   length_o (normalizeOptions (assign DefaultOptions negativeDisabled)) = 1 \<and>
   buildPositions (normalizeOptions (assign DefaultOptions negativeDisabled)) = ''lu''"
  by code_simp

lemma set_drawChar:
  "set (drawChar rnd opts Q k) \<subseteq>
     set (lowercaseCharSet opts) \<union> set (uppercaseCharSet opts) \<union> set (numberCharSet opts) \<union> set specialCharSet"
proof (cases "positionChars opts (Q ! k)")
  case None
  then show ?thesis by (simp add: drawChar_def)
next
  case (Some cs)
  then have "set cs \<subseteq> set (lowercaseCharSet opts) \<union> set (uppercaseCharSet opts) \<union> set (numberCharSet opts) \<union> set specialCharSet"
    by (auto simp: positionChars_def allCharSet_def split: if_splits)
  with charAt_subset [of cs] Some show ?thesis
    by (auto simp: drawChar_def)
qed

lemma charsets_unambiguous:
  assumes "\<not> ambiguous opts"
  shows "(set (lowercaseCharSet opts) \<union> set (uppercaseCharSet opts) \<union> set (numberCharSet opts) \<union> set specialCharSet)
           \<inter> {CHR ''0'', CHR ''O'', CHR ''1'', CHR ''l''} = {}"
  using assms
  by (simp add: lowercaseCharSet_def uppercaseCharSet_def numberCharSet_def specialCharSet_def)

text \<open>
  Claim C5: with \<open>ambiguous\<close> false, none of \<open>0 O 1 l\<close> occurs in the password,
  whatever the random source answers (in range or not).
\<close>

theorem generatePassword_unambiguous:
  assumes "permutes shuffle" and "\<not> ambiguous (assign DefaultOptions options)"
  shows "\<exists>s. generatePassword shuffle rnd options = Inr s \<and>
             set s \<inter> {CHR ''0'', CHR ''O'', CHR ''1'', CHR ''l''} = {}"
proof -
  let ?opts = "normalizeOptions (assign DefaultOptions options)"
  let ?Q = "shuffle (buildPositions ?opts)"
  let ?s = "concat (map (drawChar rnd ?opts ?Q) [0..<nat (length_o ?opts)])"
  have "\<not> ambiguous ?opts" using assms(2) by simp
  from charsets_unambiguous [OF this] set_drawChar [of rnd ?opts ?Q]
  have "set ?s \<inter> {CHR ''0'', CHR ''O'', CHR ''1'', CHR ''l''} = {}"
    by fastforce
  then show ?thesis
    by (simp add: generatePassword_closed [OF assms(1)] Let_def)
qed

theorem generatePassword_unambiguous_witness:
  "\<exists>s. generatePassword rev lowest lengthThree = Inr s \<and>
       set s \<inter> {CHR ''0'', CHR ''O'', CHR ''1'', CHR ''l''} = {}"
proof -
  have "\<not> ambiguous (assign DefaultOptions lengthThree)"
    by (simp add: assign_def lengthThree_def noOptions_def DefaultOptions_def)
  from generatePassword_unambiguous [OF permutes_rev this] show ?thesis .
qed

section \<open>What generatePassword writes\<close>

lemma length_assignAt [simp]: "length (assignAt a f h) = length h"
  by (simp add: assignAt_def split: obj.splits)

lemma take_assignAt: "n \<le> a \<Longrightarrow> take n (assignAt a f h) = take n h"
  by (simp add: assignAt_def split: obj.splits)

lemma assignAt_last: "assignAt (length h) f (h @ [Full g]) = h @ [Full (f g)]"
  by (simp add: assignAt_def)

lemma generatePasswordStore_frame:
  "take (length h) (snd (generatePasswordStore shuffle rnd h defaults options)) = h"
  by (simp add: generatePasswordStore_def Let_def assignAt_last split: obj.splits)

lemma generatePasswordStore_result:
  assumes "defaults < length h" and "options < length h" and "h ! defaults = Full DefaultOptions"
  shows "fst (generatePasswordStore shuffle rnd h defaults options)
           = generatePassword shuffle rnd (fieldsOf (h ! options))"
  using assms
  by (simp add: generatePasswordStore_def generatePassword_def Let_def assignAt_last
      normalizeOptions_def sanitize_def)

text \<open>
  Claim C10: \<open>generatePassword\<close> changes neither its argument nor \<open>DefaultOptions\<close>.
  Every object that was in the store before the call, those two among them, is the
  same after it: all writes go to the object \<open>Object.assign\<close> created. On a store
  that holds \<open>DefaultOptions\<close> and the argument, the result is that of
  \<open>generatePassword\<close>.
\<close>

theorem generatePassword_writes_only_its_copy:
  "take (length h) (snd (generatePasswordStore shuffle rnd h defaults options)) = h \<and>
   (defaults < length h \<and> options < length h \<and> h ! defaults = Full DefaultOptions \<longrightarrow>
      fst (generatePasswordStore shuffle rnd h defaults options)
        = generatePassword shuffle rnd (fieldsOf (h ! options)))"
  using generatePasswordStore_frame generatePasswordStore_result by blast

theorem generatePassword_writes_only_its_copy_witness:
  "take 2 (snd (generatePasswordStore rev lowest [Full DefaultOptions, Given lengthThree] 0 1))
     = [Full DefaultOptions, Given lengthThree] \<and>
   fst (generatePasswordStore rev lowest [Full DefaultOptions, Given lengthThree] 0 1)
     = generatePassword rev lowest lengthThree \<and>
   generatePassword rev lowest lengthThree = Inr ''a2Aa''"
proof -
  have "generatePassword rev lowest lengthThree = Inr ''a2Aa''" by code_simp
  then show ?thesis
    using generatePassword_writes_only_its_copy
      [of "[Full DefaultOptions, Given lengthThree]" rev lowest 0 1]
    by (simp add: numeral_2_eq_2)
qed

section \<open>Properties of the history store\<close>

lemma inverts_demo: "inverts demoCrypto"
  by (simp add: inverts_def demoCrypto_def)

lemma newService_simps:
  "history (newService k st) = Some 0" "arrays (newService k st) = (\<lambda>a. [])"
  "fresh (newService k st) = 1" "key (newService k st) = k" "storage (newService k st) = st"
  "calls (newService k st) = []"
  by (simp_all add: newService_def newArray_def fun_eq_iff)

lemma getHistory_key_cached:
  assumes "key s = Some k" and "history s = Some a"
  shows "getHistory crypto s = (Inr a, s\<lparr>calls := calls s @ [GetKey]\<rparr>)"
  using assms by (simp add: getHistory_def getKey_def)

lemma getHistory_nokey:
  assumes "key s = None"
  shows "getHistory crypto s =
    (Inr (fresh s), s\<lparr>calls := calls s @ [GetKey], arrays := (arrays s)(fresh s := []), fresh := Suc (fresh s)\<rparr>)"
  using assms by (simp add: getHistory_def getKey_def newArray_def)

lemma addHistory_nokey:
  assumes "key s = None"
  shows "addHistory crypto now pw s = (Inr (), s\<lparr>calls := calls s @ [GetKey]\<rparr>)"
  using assms by (simp add: addHistory_def getKey_def)

lemma getHistory_unset:
  assumes "key s = Some k" and "history s = None"
  shows "getHistory crypto s =
    (case decryptItems (decrypt crypto) (case storage s Keys_history of None \<Rightarrow> [] | Some xs \<Rightarrow> xs) of
       Inl e \<Rightarrow> (Inl e, s\<lparr>calls := calls s @ [GetKey, StorageGet Keys_history] @
                    map (\<lambda>item. Decrypt (CipherString (password item))) (case storage s Keys_history of None \<Rightarrow> [] | Some xs \<Rightarrow> xs)\<rparr>)
     | Inr xs \<Rightarrow> (Inr (fresh s), s\<lparr>calls := calls s @ [GetKey, StorageGet Keys_history] @
                    map (\<lambda>item. Decrypt (CipherString (password item))) (case storage s Keys_history of None \<Rightarrow> [] | Some xs \<Rightarrow> xs),
                    arrays := (arrays s)(fresh s := xs), fresh := Suc (fresh s), history := Some (fresh s)\<rparr>))"
  using assms
  by (auto simp: getHistory_def getKey_def loadHistory_def storageGet_def decryptHistory_def newArray_def
      split: option.splits sum.splits)

lemma trim_nonempty: "trim (xs @ [x]) \<noteq> []"
  by (cases xs) (simp_all add: trim_def MaxPasswordsInHistory_def)

lemma push_shift:
  "(if MaxPasswordsInHistory < length (arrays (push a x s) a) then shift a (push a x s) else push a x s)
     = s\<lparr>arrays := (arrays s)(a := trim (arrays s a @ [x]))\<rparr>"
  by (simp add: push_def shift_def trim_def)

lemma encryptHistory_nonempty:
  "xs \<noteq> [] \<Longrightarrow> encryptHistory crypto (Some xs) s =
     (encryptItems (encrypt crypto) xs, s\<lparr>calls := calls s @ map (\<lambda>item. Encrypt (password item)) xs\<rparr>)"
  by (simp add: encryptHistory_def)

lemma addHistory_key_cached:
  assumes "key s = Some k" and "history s = Some a"
  shows "addHistory crypto now pw s =
    (if arrays s a \<noteq> [] \<and> password (last (arrays s a)) = pw
     then (Inr (), s\<lparr>calls := calls s @ [GetKey, GetKey]\<rparr>)
     else (let xs = trim (arrays s a @ [\<lparr>password = pw, date = now\<rparr>]);
               s' = s\<lparr>calls := calls s @ [GetKey, GetKey] @ map (\<lambda>item. Encrypt (password item)) xs,
                       arrays := (arrays s)(a := xs)\<rparr>
           in case encryptItems (encrypt crypto) xs of
                Inl e \<Rightarrow> (Inl e, s')
              | Inr newHistory \<Rightarrow>
                  (Inr (), s'\<lparr>storage := (storage s)(Keys_history \<mapsto> newHistory),
                              calls := calls s' @ [StorageSave Keys_history]\<rparr>)))"
proof -
  let ?s1 = "s\<lparr>calls := calls s @ [GetKey]\<rparr>"
  let ?s2 = "s\<lparr>calls := calls s @ [GetKey, GetKey]\<rparr>"
  have g: "getHistory crypto ?s1 = (Inr a, ?s2)"
    using assms by (simp add: getHistory_key_cached [of ?s1 k a])
  have m: "matchesPrevious pw (Some (arrays s a)) = (arrays s a \<noteq> [] \<and> password (last (arrays s a)) = pw)"
    by (simp add: matchesPrevious_def last_conv_nth)
  define xs where "xs = trim (arrays s a @ [\<lparr>password = pw, date = now\<rparr>])"
  have ne: "xs \<noteq> []"
    unfolding xs_def by (rule trim_nonempty)
  have ps: "(if MaxPasswordsInHistory < length (arrays (push a \<lparr>password = pw, date = now\<rparr> ?s2) a)
             then shift a (push a \<lparr>password = pw, date = now\<rparr> ?s2)
             else push a \<lparr>password = pw, date = now\<rparr> ?s2)
            = ?s2\<lparr>arrays := (arrays s)(a := xs)\<rparr>"
    unfolding xs_def by (simp add: push_shift)
  have add: "addHistory crypto now pw s =
      (if arrays s a \<noteq> [] \<and> password (last (arrays s a)) = pw then (Inr (), ?s2)
       else (case encryptHistory crypto (Some xs) (?s2\<lparr>arrays := (arrays s)(a := xs)\<rparr>) of
               (Inl e, s5) \<Rightarrow> (Inl e, s5)
             | (Inr newHistory, s5) \<Rightarrow> (Inr (), storageSave Keys_history newHistory s5)))"
    unfolding addHistory_def getKey_def Let_def
    by (simp only: assms(1) g ps prod.case option.simps if_False sum.case) (simp add: m)
  show ?thesis
    unfolding add Let_def xs_def [symmetric]
    by (simp add: encryptHistory_nonempty [OF ne] storageSave_def split: sum.splits)
qed


lemma length_trim: "length xs \<le> MaxPasswordsInHistory \<Longrightarrow> length (trim (xs @ [x])) \<le> MaxPasswordsInHistory"
  by (simp add: trim_def)

lemma addHistory_effect:
  assumes "key s = Some k" and "history s = Some a"
  shows "key (snd (addHistory crypto now pw s)) = key s"
    and "history (snd (addHistory crypto now pw s)) = history s"
    and "fresh (snd (addHistory crypto now pw s)) = fresh s"
    and "arrays (snd (addHistory crypto now pw s)) =
           (if arrays s a \<noteq> [] \<and> password (last (arrays s a)) = pw then arrays s
            else (arrays s)(a := trim (arrays s a @ [\<lparr>password = pw, date = now\<rparr>])))"
  by (simp_all add: addHistory_key_cached [OF assms] Let_def split: sum.splits)

lemma addHistory_cached:
  assumes "key s = Some k" and "history s = Some a"
  shows "cached (snd (addHistory crypto now pw s)) =
           (if cached s = [] \<or> password (last (cached s)) \<noteq> pw
            then trim (cached s @ [\<lparr>password = pw, date = now\<rparr>]) else cached s)"
  using assms by (simp add: cached_def addHistory_effect [OF assms])

lemma step_wellFormed: "wellFormed s \<Longrightarrow> wellFormed (step crypto e s)"
proof (cases e)
  case (AddHistory now pw)
  assume wf: "wellFormed s"
  then obtain a where a: "history s = Some a" "a < fresh s" "length (arrays s a) \<le> MaxPasswordsInHistory"
    by (auto simp: wellFormed_def split: option.splits)
  show ?thesis
  proof (cases "key s")
    case None
    then show ?thesis using a AddHistory by (simp add: addHistory_nokey wellFormed_def)
  next
    case (Some k)
    show ?thesis using a AddHistory
      by (simp add: wellFormed_def addHistory_effect [OF Some a(1)] length_trim)
  qed
next
  case GetHistory
  assume wf: "wellFormed s"
  then obtain a where a: "history s = Some a" "a < fresh s" "length (arrays s a) \<le> MaxPasswordsInHistory"
    by (auto simp: wellFormed_def split: option.splits)
  show ?thesis
  proof (cases "key s")
    case None
    then show ?thesis using a GetHistory by (simp add: getHistory_nokey wellFormed_def)
  next
    case (Some k)
    then show ?thesis using a GetHistory by (simp add: getHistory_key_cached wellFormed_def)
  qed
next
  case Clear
  then show ?thesis
    by (simp add: clear_def newArray_def storageRemove_def wellFormed_def)
next
  case (SetKey k)
  assume "wellFormed s"
  then show ?thesis using SetKey by (simp add: wellFormed_def split: option.splits)
qed

lemma run_wellFormed: "wellFormed s \<Longrightarrow> wellFormed (run crypto es s)"
  by (induction es arbitrary: s) (simp_all add: step_wellFormed)

lemma newService_wellFormed: "wellFormed (newService k st)"
  by (simp add: wellFormed_def newService_simps)

lemma wellFormed_cached: "wellFormed s \<Longrightarrow> length (cached s) \<le> 100"
  by (auto simp: wellFormed_def cached_def MaxPasswordsInHistory_def split: option.splits)

text \<open>
  Claim C7: the history never holds more than 100 entries: not after any sequence of
  operations on a new instance, and an insertion into a list of 100 entries removes
  exactly the oldest one (index 0), keeps the other 99 and the new entry in order,
  and leaves 100.
\<close>

theorem history_capped:
  "length (cached (run crypto es (newService k st))) \<le> 100 \<and>
   (key s = Some k' \<and> history s = Some a \<and> length (cached s) = 100 \<and>
      password (last (cached s)) \<noteq> pw \<longrightarrow>
      cached (snd (addHistory crypto now pw s)) = tl (cached s) @ [\<lparr>password = pw, date = now\<rparr>] \<and>
      length (cached (snd (addHistory crypto now pw s))) = 100)"
proof
  show "length (cached (run crypto es (newService k st))) \<le> 100"
    by (rule wellFormed_cached [OF run_wellFormed [OF newService_wellFormed]])
next
  show "key s = Some k' \<and> history s = Some a \<and> length (cached s) = 100 \<and>
      password (last (cached s)) \<noteq> pw \<longrightarrow>
      cached (snd (addHistory crypto now pw s)) = tl (cached s) @ [\<lparr>password = pw, date = now\<rparr>] \<and>
      length (cached (snd (addHistory crypto now pw s))) = 100"
  proof (intro impI, elim conjE)
    assume k: "key s = Some k'" and h: "history s = Some a" and l: "length (cached s) = 100"
      and p: "password (last (cached s)) \<noteq> pw"
    from l have ne: "cached s \<noteq> []" by auto
    have "cached (snd (addHistory crypto now pw s)) = trim (cached s @ [\<lparr>password = pw, date = now\<rparr>])"
      using p by (simp add: addHistory_cached [OF k h])
    also have "\<dots> = tl (cached s) @ [\<lparr>password = pw, date = now\<rparr>]"
      using l ne by (simp add: trim_def MaxPasswordsInHistory_def)
    finally show "cached (snd (addHistory crypto now pw s)) = tl (cached s) @ [\<lparr>password = pw, date = now\<rparr>] \<and>
      length (cached (snd (addHistory crypto now pw s))) = 100"
      using l by simp
  qed
qed

theorem history_capped_witness:
  "length (cached (run demoCrypto [AddHistory 1 ''a'', Clear] (newService (Some ''key'') Map.empty)))
     \<le> 100 \<and>
   cached (snd (addHistory demoCrypto 7 ''new'' fullService))
     = tl (cached fullService) @ [\<lparr>password = ''new'', date = 7\<rparr>] \<and>
   length (cached (snd (addHistory demoCrypto 7 ''new'' fullService))) = 100"
proof -
  have "key fullService = Some ''key''" "history fullService = Some 0"
    "length (cached fullService) = 100" "password (last (cached fullService)) \<noteq> ''new''"
    by (simp_all add: fullService_def newService_simps cached_def)
  with history_capped [of demoCrypto "[AddHistory 1 ''a'', Clear]" "Some ''key''" Map.empty
      fullService "''key''" 0 "''new''" 7]
  show ?thesis by blast
qed


lemma roundtrip_items:
  assumes "inverts crypto"
  shows "\<exists>E. encryptItems (encrypt crypto) L = Inr E \<and> decryptItems (decrypt crypto) E = Inr L \<and>
             length E = length L \<and>
             (\<forall>i<length L. date (E ! i) = date (L ! i) \<and>
                 encrypt crypto (password (L ! i)) = Inr (CipherString (password (E ! i))))"
proof (induction L)
  case Nil
  show ?case by simp
next
  case (Cons item L)
  then obtain E where E: "encryptItems (encrypt crypto) L = Inr E" "decryptItems (decrypt crypto) E = Inr L"
    "length E = length L"
    "\<forall>i<length L. date (E ! i) = date (L ! i) \<and> encrypt crypto (password (L ! i)) = Inr (CipherString (password (E ! i)))"
    by blast
  from assms obtain c where c: "encrypt crypto (password item) = Inr c" "decrypt crypto c = Inr (password item)"
    unfolding inverts_def by blast
  let ?E = "\<lparr>password = encryptedString c, date = date item\<rparr> # E"
  have "encryptItems (encrypt crypto) (item # L) = Inr ?E" using E(1) c(1) by simp
  moreover have "decryptItems (decrypt crypto) ?E = Inr (item # L)" using E(2) c(2) by simp
  moreover have "length ?E = length (item # L)" using E(3) by simp
  moreover have "\<forall>i<length (item # L). date (?E ! i) = date ((item # L) ! i) \<and>
      encrypt crypto (password ((item # L) ! i)) = Inr (CipherString (password (?E ! i)))"
    using E(4) c(1) by (auto simp: nth_Cons split: nat.splits)
  ultimately show ?case by blast
qed

text \<open>
  Claim C8: when \<open>decrypt\<close> inverts \<open>encrypt\<close>, decrypting the encrypted history
  gives the history back: the lists have the same length, entry \<open>i\<close> of the
  encrypted list carries the date of entry \<open>i\<close> unchanged and the encryption of its
  password alone. (The empty list is included: both functions return an empty list.)
\<close>

theorem history_roundtrip:
  assumes "inverts crypto"
  shows "\<exists>E. fst (encryptHistory crypto (Some L) s) = Inr E \<and>
             fst (decryptHistory crypto (Some E) s') = Inr L \<and>
             length E = length L \<and>
             (\<forall>i<length L. date (E ! i) = date (L ! i) \<and>
                 encrypt crypto (password (L ! i)) = Inr (CipherString (password (E ! i))) \<and>
                 decrypt crypto (CipherString (password (E ! i))) = Inr (password (L ! i)))"
proof -
  from roundtrip_items [OF assms, of L] obtain E where
    E: "encryptItems (encrypt crypto) L = Inr E" "decryptItems (decrypt crypto) E = Inr L"
    "length E = length L"
    "\<forall>i<length L. date (E ! i) = date (L ! i) \<and> encrypt crypto (password (L ! i)) = Inr (CipherString (password (E ! i)))"
    by blast
  have d: "\<forall>i<length L. decrypt crypto (CipherString (password (E ! i))) = Inr (password (L ! i))"
  proof (intro allI impI)
    fix i assume i: "i < length L"
    from assms obtain c where c: "encrypt crypto (password (L ! i)) = Inr c" "decrypt crypto c = Inr (password (L ! i))"
      unfolding inverts_def by blast
    with E(4) i show "decrypt crypto (CipherString (password (E ! i))) = Inr (password (L ! i))" by simp
  qed
  have "fst (encryptHistory crypto (Some L) s) = Inr E"
    using E(1) by (cases L) (auto simp: encryptHistory_def)
  moreover have "fst (decryptHistory crypto (Some E) s') = Inr L"
    using E(2,3) by (cases E) (auto simp: decryptHistory_def)
  ultimately show ?thesis using E(3,4) d by blast
qed

theorem history_roundtrip_witness:
  "\<exists>E. fst (encryptHistory demoCrypto
              (Some [\<lparr>password = ''hunter2'', date = 1\<rparr>, \<lparr>password = ''abc'', date = 2\<rparr>])
              (newService (Some ''key'') Map.empty)) = Inr E \<and>
       fst (decryptHistory demoCrypto (Some E) (newService (Some ''key'') Map.empty))
         = Inr [\<lparr>password = ''hunter2'', date = 1\<rparr>, \<lparr>password = ''abc'', date = 2\<rparr>]"
  using history_roundtrip [OF inverts_demo,
      of "[\<lparr>password = ''hunter2'', date = 1\<rparr>, \<lparr>password = ''abc'', date = 2\<rparr>]"
         "newService (Some ''key'') Map.empty" "newService (Some ''key'') Map.empty"]
  by blast

text \<open>
  Claim C9: without a key, \<open>getHistory\<close> returns a new empty array and
  \<open>addHistory\<close> returns; the only call either makes is \<open>getKey\<close> (no storage
  read or write, no encryption or decryption), the field, the arrays that existed and
  the storage are as before, and neither fails.
\<close>

theorem no_key:
  assumes "key s = None"
  shows "(\<exists>s'. getHistory crypto s = (Inr (fresh s), s') \<and> arrays s' (fresh s) = [] \<and>
            calls s' = calls s @ [GetKey] \<and> history s' = history s \<and> storage s' = storage s \<and>
            (\<forall>a<fresh s. arrays s' a = arrays s a)) \<and>
         addHistory crypto now pw s = (Inr (), s\<lparr>calls := calls s @ [GetKey]\<rparr>)"
  using assms by (simp add: getHistory_nokey addHistory_nokey)

theorem no_key_witness:
  "(\<exists>s'. getHistory demoCrypto (newService None persisted) = (Inr 1, s') \<and>
         arrays s' 1 = [] \<and> calls s' = [GetKey] \<and> history s' = Some 0 \<and>
         storage s' = persisted) \<and>
   addHistory demoCrypto 5 ''pw'' (newService None persisted)
     = (Inr (), (newService None persisted)\<lparr>calls := [GetKey]\<rparr>)"
proof -
  have "key (newService None persisted) = None"
    by (simp add: newService_simps)
  from no_key [OF this, of demoCrypto 5 "''pw''"] show ?thesis
    by (auto simp: newService_simps)
qed

lemma addHistory_storage:
  assumes "key s = Some k" and "history s = Some a" and "inverts crypto"
    and "cached s = [] \<or> password (last (cached s)) \<noteq> pw"
  shows "\<exists>E. storage (snd (addHistory crypto now pw s)) Keys_history = Some E \<and>
             decryptItems (decrypt crypto) E = Inr (cached (snd (addHistory crypto now pw s)))"
proof -
  let ?xs = "trim (arrays s a @ [\<lparr>password = pw, date = now\<rparr>])"
  from roundtrip_items [OF assms(3), of ?xs] obtain E where
    E: "encryptItems (encrypt crypto) ?xs = Inr E" "decryptItems (decrypt crypto) E = Inr ?xs" by blast
  from assms(2,4) have nd: "\<not> (arrays s a \<noteq> [] \<and> password (last (arrays s a)) = pw)"
    by (auto simp: cached_def)
  have "addHistory crypto now pw s =
      (Inr (), s\<lparr>calls := calls s @ [GetKey, GetKey] @ map (\<lambda>item. Encrypt (password item)) ?xs,
                 arrays := (arrays s)(a := ?xs),
                 storage := (storage s)(Keys_history \<mapsto> E),
                 calls := calls s @ [GetKey, GetKey] @ map (\<lambda>item. Encrypt (password item)) ?xs
                            @ [StorageSave Keys_history]\<rparr>)"
    unfolding addHistory_key_cached [OF assms(1,2)] Let_def using nd E(1) by auto
  then show ?thesis
    using E(2) assms(2) by (simp add: cached_def)
qed


lemma trim_short: "length xs \<le> 100 \<Longrightarrow> trim xs = xs"
  by (simp add: trim_def MaxPasswordsInHistory_def)

lemma addHistory_duplicate_storage:
  assumes "key s = Some k" and "history s = Some a"
    and "cached s \<noteq> []" and "password (last (cached s)) = pw"
  shows "storage (snd (addHistory crypto now pw s)) = storage s"
  using assms by (simp add: addHistory_key_cached [OF assms(1,2)] cached_def)

lemma twice:
  fixes crypto k st t1 t2 p
  defines "s2 \<equiv> run crypto [AddHistory t1 p, AddHistory t2 p] (newService (Some k) st)"
  shows "cached s2 = [\<lparr>password = p, date = t1\<rparr>]"
    and "inverts crypto \<Longrightarrow> \<exists>E. storage s2 Keys_history = Some E \<and>
           decryptItems (decrypt crypto) E = Inr [\<lparr>password = p, date = t1\<rparr>]"
proof -
  let ?s0 = "newService (Some k) st"
  let ?s1 = "snd (addHistory crypto t1 p ?s0)"
  have k0: "key ?s0 = Some k" and h0: "history ?s0 = Some 0" and c0: "cached ?s0 = []"
    by (simp_all add: newService_simps cached_def)
  have c1: "cached ?s1 = [\<lparr>password = p, date = t1\<rparr>]"
    by (simp add: addHistory_cached [OF k0 h0] c0 trim_short)
  have k1: "key ?s1 = Some k" and h1: "history ?s1 = Some 0"
    by (simp_all add: addHistory_effect [OF k0 h0] k0 h0)
  have s2: "s2 = snd (addHistory crypto t2 p ?s1)"
    by (simp add: s2_def)
  show "cached s2 = [\<lparr>password = p, date = t1\<rparr>]"
    by (simp add: s2 addHistory_cached [OF k1 h1] c1)
  assume inv: "inverts crypto"
  from addHistory_storage [OF k0 h0 inv, of p t1] c0 c1
  obtain E where "storage ?s1 Keys_history = Some E"
    "decryptItems (decrypt crypto) E = Inr [\<lparr>password = p, date = t1\<rparr>]" by auto
  moreover have "storage s2 = storage ?s1"
    unfolding s2 by (rule addHistory_duplicate_storage [OF k1 h1]) (simp_all add: c1)
  ultimately show "\<exists>E. storage s2 Keys_history = Some E \<and>
           decryptItems (decrypt crypto) E = Inr [\<lparr>password = p, date = t1\<rparr>]" by simp
qed

lemma thrice:
  fixes crypto k st t1 t2 t3 p q
  defines "s3 \<equiv> run crypto [AddHistory t1 p, AddHistory t2 q, AddHistory t3 p] (newService (Some k) st)"
  assumes "q \<noteq> p"
  shows "cached s3 = [\<lparr>password = p, date = t1\<rparr>, \<lparr>password = q, date = t2\<rparr>, \<lparr>password = p, date = t3\<rparr>]"
    and "inverts crypto \<Longrightarrow> \<exists>E. storage s3 Keys_history = Some E \<and>
           decryptItems (decrypt crypto) E =
             Inr [\<lparr>password = p, date = t1\<rparr>, \<lparr>password = q, date = t2\<rparr>, \<lparr>password = p, date = t3\<rparr>]"
proof -
  let ?s0 = "newService (Some k) st"
  let ?s1 = "snd (addHistory crypto t1 p ?s0)"
  let ?s2 = "snd (addHistory crypto t2 q ?s1)"
  have k0: "key ?s0 = Some k" and h0: "history ?s0 = Some 0" and c0: "cached ?s0 = []"
    by (simp_all add: newService_simps cached_def)
  have c1: "cached ?s1 = [\<lparr>password = p, date = t1\<rparr>]"
    by (simp add: addHistory_cached [OF k0 h0] c0 trim_short)
  have k1: "key ?s1 = Some k" and h1: "history ?s1 = Some 0"
    by (simp_all add: addHistory_effect [OF k0 h0] k0 h0)
  have c2: "cached ?s2 = [\<lparr>password = p, date = t1\<rparr>, \<lparr>password = q, date = t2\<rparr>]"
    using assms(2) by (simp add: addHistory_cached [OF k1 h1] c1 trim_short)
  have k2: "key ?s2 = Some k" and h2: "history ?s2 = Some 0"
    by (simp_all add: addHistory_effect [OF k1 h1] k1 h1)
  have s3: "s3 = snd (addHistory crypto t3 p ?s2)"
    by (simp add: s3_def)
  show c3: "cached s3 = [\<lparr>password = p, date = t1\<rparr>, \<lparr>password = q, date = t2\<rparr>, \<lparr>password = p, date = t3\<rparr>]"
    using assms(2) by (simp add: s3 addHistory_cached [OF k2 h2] c2 trim_short)
  assume inv: "inverts crypto"
  from addHistory_storage [OF k2 h2 inv, of p t3] c2 assms(2) c3
  show "\<exists>E. storage s3 Keys_history = Some E \<and>
           decryptItems (decrypt crypto) E =
             Inr [\<lparr>password = p, date = t1\<rparr>, \<lparr>password = q, date = t2\<rparr>, \<lparr>password = p, date = t3\<rparr>]"
    unfolding s3 by simp
qed

text \<open>
  Claim C6: with a key, \<open>addHistory(p)\<close> inserts an entry exactly when the history
  is empty or the password of its last entry differs from \<open>p\<close>. On a new instance,
  two calls with \<open>p\<close> leave one entry, and calls with \<open>p\<close>, \<open>q \<noteq> p\<close>, \<open>p\<close> leave
  three: \<open>p\<close> is stored twice. With a working encryption service the persisted list
  decrypts to the same entries.
\<close>

theorem addHistory_checks_last_entry_only:
  "(key s = Some k' \<and> history s = Some a \<longrightarrow>
      cached (snd (addHistory crypto now pw s)) =
        (if cached s = [] \<or> password (last (cached s)) \<noteq> pw
         then trim (cached s @ [\<lparr>password = pw, date = now\<rparr>]) else cached s)) \<and>
   cached (run crypto [AddHistory t1 p, AddHistory t2 p] (newService (Some k) st))
     = [\<lparr>password = p, date = t1\<rparr>] \<and>
   (q \<noteq> p \<longrightarrow>
      cached (run crypto [AddHistory t1 p, AddHistory t2 q, AddHistory t3 p] (newService (Some k) st))
        = [\<lparr>password = p, date = t1\<rparr>, \<lparr>password = q, date = t2\<rparr>, \<lparr>password = p, date = t3\<rparr>]) \<and>
   (inverts crypto \<longrightarrow>
      (\<exists>E. storage (run crypto [AddHistory t1 p, AddHistory t2 p] (newService (Some k) st)) Keys_history = Some E \<and>
           decryptItems (decrypt crypto) E = Inr [\<lparr>password = p, date = t1\<rparr>])) \<and>
   (inverts crypto \<and> q \<noteq> p \<longrightarrow>
      (\<exists>E. storage (run crypto [AddHistory t1 p, AddHistory t2 q, AddHistory t3 p] (newService (Some k) st))
             Keys_history = Some E \<and>
           decryptItems (decrypt crypto) E =
             Inr [\<lparr>password = p, date = t1\<rparr>, \<lparr>password = q, date = t2\<rparr>, \<lparr>password = p, date = t3\<rparr>]))"
  using addHistory_cached [of s k' a crypto now pw] twice [of crypto t1 p t2 k st]
    thrice [of q p crypto t1 t2 t3 k st]
  by blast

theorem addHistory_checks_last_entry_only_witness:
  "cached (snd (addHistory demoCrypto 1 ''a'' (newService (Some ''key'') Map.empty)))
     = [\<lparr>password = ''a'', date = 1\<rparr>] \<and>
   cached (run demoCrypto [AddHistory 1 ''a'', AddHistory 2 ''a''] (newService (Some ''key'') Map.empty))
     = [\<lparr>password = ''a'', date = 1\<rparr>] \<and>
   cached (run demoCrypto [AddHistory 1 ''a'', AddHistory 2 ''b'', AddHistory 3 ''a'']
             (newService (Some ''key'') Map.empty))
     = [\<lparr>password = ''a'', date = 1\<rparr>, \<lparr>password = ''b'', date = 2\<rparr>, \<lparr>password = ''a'', date = 3\<rparr>] \<and>
   (\<exists>E. storage (run demoCrypto [AddHistory 1 ''a'', AddHistory 2 ''b'', AddHistory 3 ''a'']
                    (newService (Some ''key'') Map.empty)) Keys_history = Some E \<and>
        decryptItems (decrypt demoCrypto) E
          = Inr [\<lparr>password = ''a'', date = 1\<rparr>, \<lparr>password = ''b'', date = 2\<rparr>,
                 \<lparr>password = ''a'', date = 3\<rparr>])"
proof -
  have s: "key (newService (Some ''key'') Map.empty) = Some ''key''"
    "history (newService (Some ''key'') Map.empty) = Some 0"
    "cached (newService (Some ''key'') Map.empty) = []"
    by (simp_all add: newService_simps cached_def)
  have t: "trim [\<lparr>password = ''a'', date = 1\<rparr>] = [\<lparr>password = ''a'', date = 1\<rparr>]"
    by (simp add: trim_short)
  have d: "''b'' \<noteq> ''a''" by simp
  from addHistory_checks_last_entry_only
    [of "newService (Some ''key'') Map.empty" "''key''" 0 demoCrypto 1 "''a''" 1 "''a''" 2
        "''key''" Map.empty "''b''" 3]
    s t d inverts_demo
  show ?thesis by simp
qed

text \<open>
  Claim C1: on an instance with a key whose history has not been loaded, the first
  \<open>getHistory\<close> reads the persisted list, decrypts and caches it. A new instance
  holds an empty array in its field, so \<open>!this.history\<close> is false: with one
  persisted entry (which decrypts to \<open>hunter2\<close>), \<open>getHistory\<close> returns the empty
  array and calls only \<open>getKey\<close>.
\<close>

theorem getHistory_new_instance:
  "getHistory demoCrypto (newService (Some ''key'') persisted)
     = (Inr 0, (newService (Some ''key'') persisted)\<lparr>calls := [GetKey]\<rparr>) \<and>
   arrays (newService (Some ''key'') persisted) 0 = [] \<and>
   fst (decryptHistory demoCrypto (persisted Keys_history) (newService (Some ''key'') persisted))
     = Inr [\<lparr>password = ''hunter2'', date = 1\<rparr>]"
  by (simp add: getHistory_key_cached [of _ "''key''" 0] newService_simps persisted_def
      decryptHistory_def demoCrypto_def)

text \<open>
  No sequence of operations on a new instance ever reads the persisted history
  (\<open>new_instance_never_loads\<close>), while \<open>getHistory\<close> does load and cache it in a
  state whose field is unset (\<open>getHistory_unset\<close>).
\<close>

lemma addHistory_calls:
  assumes "key s = Some k" and "history s = Some a"
  shows "\<exists>xs. calls (snd (addHistory crypto now pw s)) = calls s @ [GetKey, GetKey] @ map Encrypt xs \<or>
              calls (snd (addHistory crypto now pw s))
                = calls s @ [GetKey, GetKey] @ map Encrypt xs @ [StorageSave Keys_history]"
proof (cases "arrays s a \<noteq> [] \<and> password (last (arrays s a)) = pw")
  case True
  then have "calls (snd (addHistory crypto now pw s)) = calls s @ [GetKey, GetKey] @ map Encrypt []"
    by (simp add: addHistory_key_cached [OF assms])
  then show ?thesis by blast
next
  case False
  let ?xs = "map password (trim (arrays s a @ [\<lparr>password = pw, date = now\<rparr>]))"
  from False have "calls (snd (addHistory crypto now pw s)) = calls s @ [GetKey, GetKey] @ map Encrypt ?xs \<or>
              calls (snd (addHistory crypto now pw s))
                = calls s @ [GetKey, GetKey] @ map Encrypt ?xs @ [StorageSave Keys_history]"
    unfolding addHistory_key_cached [OF assms] Let_def
    by (cases "encryptItems (encrypt crypto) (trim (arrays s a @ [\<lparr>password = pw, date = now\<rparr>]))")
      (auto simp: comp_def)
  then show ?thesis by blast
qed

lemma step_never_loads:
  assumes "wellFormed s" and "\<not> list_ex isLoad (calls s)"
  shows "\<not> list_ex isLoad (calls (step crypto e s))"
proof -
  from assms(1) obtain a where a: "history s = Some a"
    by (auto simp: wellFormed_def split: option.splits)
  show ?thesis
  proof (cases e)
    case (AddHistory now pw)
    show ?thesis
    proof (cases "key s")
      case None
      then show ?thesis using assms(2) AddHistory
        by (simp add: addHistory_nokey)
    next
      case (Some k)
      from addHistory_calls [OF Some a, of crypto now pw] assms(2) AddHistory
      show ?thesis
        by (auto simp: list_ex_iff)
    qed
  next
    case GetHistory
    show ?thesis
    proof (cases "key s")
      case None
      then show ?thesis using assms(2) GetHistory
        by (simp add: getHistory_nokey)
    next
      case (Some k)
      then show ?thesis using assms(2) GetHistory a
        by (simp add: getHistory_key_cached)
    qed
  next
    case Clear
    then show ?thesis using assms(2)
      by (simp add: clear_def newArray_def storageRemove_def)
  next
    case (SetKey k)
    then show ?thesis using assms(2) by simp
  qed
qed

lemma run_never_loads:
  "wellFormed s \<Longrightarrow> \<not> list_ex isLoad (calls s) \<Longrightarrow> \<not> list_ex isLoad (calls (run crypto es s))"
  by (induction es arbitrary: s) (simp_all add: step_wellFormed step_never_loads)

lemma new_instance_never_loads:
  "\<not> list_ex isLoad (calls (run crypto es (newService k st)))"
  by (rule run_never_loads [OF newService_wellFormed]) (simp add: newService_simps)

end
